theory Spec2Isabelle
  imports Main
begin

section \<open>The DfuSe driver (src/dfuse.driver.ts)\<close>

text \<open>
  Numbers of the driver are JavaScript numbers. Addresses, sizes and lengths are
  modelled as mathematical integers (\<open>int\<close>), which is what JavaScript computes as
  long as the values are integers below \<open>2 ^ 53\<close> in magnitude. The one place where
  the driver's arithmetic leaves the integers is a division by a sector size of zero:
  there JavaScript yields \<open>Infinity\<close> or \<open>NaN\<close>, the following multiplication by
  zero yields \<open>NaN\<close>, and \<open>NaN\<close> is therefore a value of its own (\<open>jsnum\<close>).
\<close>

subsection \<open>Data model\<close>

text \<open>\<open>DFUseMemorySegment\<close>; the fields \<open>start\<close> and \<open>end\<close> are \<open>seg_start\<close> and
  \<open>seg_end\<close> here (\<open>end\<close> is a keyword).\<close>

record DFUseMemorySegment =
  seg_start :: int
  seg_end :: int
  sectorSize :: int
  readable :: bool
  erasable :: bool
  writable :: bool

text \<open>\<open>enum DFUseCommands\<close>.\<close>

definition GET_COMMANDS :: int where "GET_COMMANDS = 0"
definition SET_ADDRESS :: int where "SET_ADDRESS = 33"
definition ERASE_SECTOR :: int where "ERASE_SECTOR = 65"

text \<open>The field \<open>memoryInfo\<close>: a name and the segments, in the descriptor's order.\<close>

record MemoryInfo =
  name :: string
  segments :: "DFUseMemorySegment list"

text \<open>The driver's own fields. \<open>startAddress\<close> is a number whose default \<open>NaN\<close> means
  "not set": \<open>None\<close> is \<open>NaN\<close>. \<open>memoryInfo\<close> is optional: \<open>None\<close> is \<open>undefined\<close>.\<close>

record DriverDFUse =
  startAddress :: "int option"
  memoryInfo :: "MemoryInfo option"

datatype jsnum = Num int | NaN

text \<open>What the code throws. The first two are not \<open>WebDFUError\<close>s: a rejection coming
  from the base driver (\<open>write\<close>, \<open>poll_until\<close>), and the \<open>RangeError\<close> of
  \<open>ArrayBuffer\<close> and \<open>DataView\<close>. The others are the \<open>WebDFUError\<close>s of this file, one
  constructor for each message; an error that wraps another one keeps it.\<close>

datatype js_error =
    BaseError string
  | RangeError
  | NoMemoryMapInformation
  | AddressOutsideOfMemoryMap int
  | UnknownSegment
  | NoMemoryMapAvailable
  | StartAddressNotFound
  | UnsupportedParamLength int
  | SpecialCommandError int js_error
  | SpecialCommandFailed int
  | DfuSeWriteError js_error
  | DfuWriteFailed nat nat
  | ManifestationError js_error

subsection \<open>Memory map queries\<close>

text \<open>The \<open>for\<close> loop of \<open>getSegment\<close>: the first segment with
  \<open>start <= addr && addr < end\<close>.\<close>

fun findSegment :: "int \<Rightarrow> DFUseMemorySegment list \<Rightarrow> DFUseMemorySegment option" where
  "findSegment addr [] = None"
| "findSegment addr (segment # rest) =
     (if seg_start segment \<le> addr \<and> addr < seg_end segment then Some segment
      else findSegment addr rest)"

definition getSegment :: "DriverDFUse \<Rightarrow> int \<Rightarrow> js_error + DFUseMemorySegment option" where
  "getSegment d addr =
     (case memoryInfo d of
        None \<Rightarrow> Inl NoMemoryMapInformation
      | Some mi \<Rightarrow> Inr (findSegment addr (segments mi)))"

text \<open>\<open>segment.start + sectorIndex * segment.sectorSize\<close> with
  \<open>sectorIndex = Math.floor((addr - segment.start) / segment.sectorSize)\<close>, and the
  same with \<open>sectorIndex + 1\<close>. \<open>div\<close> on \<open>int\<close> rounds down, as \<open>Math.floor\<close> of the
  quotient does. With a sector size of zero the quotient is infinite or \<open>NaN\<close> and its
  product with zero is \<open>NaN\<close>.\<close>

definition sectorStartOf :: "int \<Rightarrow> DFUseMemorySegment \<Rightarrow> jsnum" where
  "sectorStartOf addr segment =
     (if sectorSize segment = 0 then NaN
      else Num (seg_start segment
                + ((addr - seg_start segment) div sectorSize segment) * sectorSize segment))"

definition sectorEndOf :: "int \<Rightarrow> DFUseMemorySegment \<Rightarrow> jsnum" where
  "sectorEndOf addr segment =
     (if sectorSize segment = 0 then NaN
      else Num (seg_start segment
                + ((addr - seg_start segment) div sectorSize segment + 1) * sectorSize segment))"

text \<open>The second argument of \<open>getSectorStart\<close> and \<open>getSectorEnd\<close> is optional:
  \<open>None\<close> is a call without it (\<open>undefined\<close>), \<open>Some None\<close> a call with \<open>null\<close>,
  \<open>Some (Some s)\<close> a call with the segment \<open>s\<close>. Only \<open>undefined\<close> is resolved by
  \<open>getSegment\<close>.\<close>

definition getSectorStart ::
  "DriverDFUse \<Rightarrow> int \<Rightarrow> DFUseMemorySegment option option \<Rightarrow> js_error + jsnum" where
  "getSectorStart d addr arg =
     (case (case arg of None \<Rightarrow> getSegment d addr | Some given \<Rightarrow> Inr given) of
        Inl e \<Rightarrow> Inl e
      | Inr None \<Rightarrow> Inl (AddressOutsideOfMemoryMap addr)
      | Inr (Some segment) \<Rightarrow> Inr (sectorStartOf addr segment))"

definition getSectorEnd ::
  "DriverDFUse \<Rightarrow> int \<Rightarrow> DFUseMemorySegment option option \<Rightarrow> js_error + jsnum" where
  "getSectorEnd d addr arg =
     (case (case arg of None \<Rightarrow> getSegment d addr | Some given \<Rightarrow> Inr given) of
        Inl e \<Rightarrow> Inl e
      | Inr None \<Rightarrow> Inl (AddressOutsideOfMemoryMap addr)
      | Inr (Some segment) \<Rightarrow> Inr (sectorEndOf addr segment))"

text \<open>\<open>getMaxReadSize\<close>: the loop over all segments with the accumulator \<open>numBytes\<close>;
  \<open>return 0\<close> leaves the function, \<open>break\<close> leaves the loop with the bytes so far.\<close>

fun maxReadLoop :: "int \<Rightarrow> int \<Rightarrow> DFUseMemorySegment list \<Rightarrow> int" where
  "maxReadLoop startAddr numBytes [] = numBytes"
| "maxReadLoop startAddr numBytes (segment # rest) =
     (if seg_start segment \<le> startAddr \<and> startAddr < seg_end segment then
        (if readable segment
         then maxReadLoop startAddr (numBytes + (seg_end segment - startAddr)) rest
         else 0)
      else if seg_start segment = startAddr + numBytes then
        (if readable segment
         then maxReadLoop startAddr (numBytes + (seg_end segment - seg_start segment)) rest
         else numBytes)
      else maxReadLoop startAddr numBytes rest)"

definition getMaxReadSize :: "DriverDFUse \<Rightarrow> int \<Rightarrow> js_error + int" where
  "getMaxReadSize d startAddr =
     (case memoryInfo d of
        None \<Rightarrow> Inl NoMemoryMapInformation
      | Some mi \<Rightarrow> Inr (maxReadLoop startAddr 0 (segments mi)))"

subsection \<open>The DfuSe command codec\<close>

text \<open>Bytes are numbers from 0 to 255. \<open>DataView.setUint8\<close> and \<open>setUint32\<close> convert
  their argument modulo \<open>2 ^ 8\<close> and \<open>2 ^ 32\<close>, and \<open>NaN\<close> to 0; \<open>setUint32\<close> with
  \<open>littleEndian = true\<close> stores the least significant byte first.\<close>

definition toUint8 :: "jsnum \<Rightarrow> nat" where
  "toUint8 v = (case v of NaN \<Rightarrow> 0 | Num n \<Rightarrow> nat (n mod 256))"

definition toUint32 :: "jsnum \<Rightarrow> int" where
  "toUint32 v = (case v of NaN \<Rightarrow> 0 | Num n \<Rightarrow> n mod 2 ^ 32)"

definition uint32LE :: "jsnum \<Rightarrow> nat list" where
  "uint32LE v =
     [nat (toUint32 v mod 256), nat (toUint32 v div 256 mod 256),
      nat (toUint32 v div 65536 mod 256), nat (toUint32 v div 16777216 mod 256)]"

text \<open>The payload of \<open>dfuseCommand\<close>, up to the point where it is sent or the function
  throws. \<open>new ArrayBuffer(len + 1)\<close> raises a \<open>RangeError\<close> for a negative length and
  for a length above \<open>limit\<close>, the largest buffer that the JavaScript engine allocates;
  \<open>view.setUint8(0, command)\<close> raises one on a buffer of no bytes. All of them happen
  before the test of \<open>len\<close>.\<close>

definition dfusePayload :: "int \<Rightarrow> int \<Rightarrow> jsnum \<Rightarrow> int \<Rightarrow> js_error + nat list" where
  "dfusePayload limit command param len =
     (if len + 1 < 0 \<or> limit < len + 1 then Inl RangeError
      else
        let payload = replicate (nat (len + 1)) (0::nat) in
        if length payload < 1 then Inl RangeError
        else
          let payload = payload[0 := toUint8 (Num command)] in
          if len = 1 then Inr (payload[1 := toUint8 param])
          else if len = 4 then
            Inr (payload[1 := uint32LE param ! 0, 2 := uint32LE param ! 1,
                         3 := uint32LE param ! 2, 4 := uint32LE param ! 3])
          else Inl (UnsupportedParamLength len))"

subsection \<open>The base driver and the trace of a run\<close>

text \<open>The calls with which \<open>poll_until\<close> and \<open>poll_until_idle\<close> are used:
  \<open>poll_until(state != dfuDNBUSY)\<close>, \<open>poll_until_idle(dfuDNLOAD_IDLE)\<close> and
  \<open>poll_until(state === dfuMANIFEST)\<close>.\<close>

datatype poll_call = PollUntilNotBusy | PollUntilIdle | PollUntilManifest

text \<open>The messages of \<open>logInfo\<close>, \<open>logWarning\<close> and \<open>logError\<close>, one constructor for
  each text, with the number or the error that the text contains.\<close>

datatype log_message =
    ErasingMemory
  | InferredStartAddress int
  | StartOutsideMemoryMap int
  | CopyingData
  | Wrote int
  | Manifesting
  | Thrown js_error

text \<open>What a run does to the outside, in order: \<open>this.write(payload, blockIndex)\<close>, the
  polls, and the calls of the logging sink.\<close>

datatype event =
    Write "nat list" nat
  | Poll poll_call
  | LogProgress int int
  | LogInfo log_message
  | LogWarning log_message
  | LogError log_message

text \<open>The result of a poll: \<open>{ state, status }\<close>.\<close>

record dfu_status =
  state :: nat
  status :: nat

text \<open>The base class \<open>WebDFUDriver\<close> (base.driver) is not part of the file; it is a
  parameter. \<open>base_write\<close> and \<open>base_poll\<close> answer a call from the events so far:
  \<open>Inl\<close> is a rejected promise, \<open>Inr\<close> the number of bytes written and the status
  polled. \<open>STATUS_OK\<close> is \<open>dfuCommands.STATUS_OK\<close>. \<open>maxByteLength\<close> is the length
  of the largest \<open>ArrayBuffer\<close> that the JavaScript engine of the run allocates.\<close>

record WebDFUDriver =
  STATUS_OK :: nat
  base_write :: "event list \<Rightarrow> nat list \<Rightarrow> nat \<Rightarrow> js_error + int"
  base_poll :: "event list \<Rightarrow> poll_call \<Rightarrow> js_error + dfu_status"
  maxByteLength :: int

text \<open>The largest buffer of a run: the language allows no \<open>ArrayBuffer\<close> of more than
  \<open>2 ^ 53 - 1\<close> bytes, whatever the engine, and an engine that runs the driver allocates
  the 5 bytes of a command.\<close>

definition bufferLimit :: "WebDFUDriver \<Rightarrow> int" where
  "bufferLimit b = min 9007199254740991 (max 5 (maxByteLength b))"

text \<open>\<open>dfuseCommand(command, param, len)\<close>: the result and the events so far.\<close>

definition dfuseCommand ::
  "WebDFUDriver \<Rightarrow> int \<Rightarrow> jsnum \<Rightarrow> int \<Rightarrow> event list \<Rightarrow> (js_error + unit) \<times> event list" where
  "dfuseCommand b command param len tr =
     (case dfusePayload (bufferLimit b) command param len of
        Inl e \<Rightarrow> (Inl e, tr)
      | Inr payload \<Rightarrow>
          (case base_write b tr payload 0 of
             Inl error \<Rightarrow> (Inl (SpecialCommandError command error), tr @ [Write payload 0])
           | Inr _ \<Rightarrow>
               (case base_poll b (tr @ [Write payload 0]) PollUntilNotBusy of
                  Inl error \<Rightarrow> (Inl error, tr @ [Write payload 0, Poll PollUntilNotBusy])
                | Inr st \<Rightarrow>
                    if status st \<noteq> STATUS_OK b
                    then (Inl (SpecialCommandFailed command),
                          tr @ [Write payload 0, Poll PollUntilNotBusy])
                    else (Inr (), tr @ [Write payload 0, Poll PollUntilNotBusy]))))"

subsection \<open>The erase engine\<close>

text \<open>The \<open>while\<close> loop of \<open>erase\<close>. Inside the loop \<open>addr\<close>, \<open>endAddr\<close>,
  \<open>bytesErased\<close> and \<open>bytesToErase\<close> are numbers, not \<open>NaN\<close> (the test
  \<open>addr < endAddr\<close> fails on \<open>NaN\<close>). \<open>segment?.end ?? 0\<close> is 0 for \<open>null\<close> and
  \<open>!segment?.erasable\<close> holds for \<open>null\<close>. The sector address is computed as in
  \<open>getSectorStart\<close>; when it is \<open>NaN\<close> (sector size 0) the command is sent with it,
  \<open>addr\<close> becomes \<open>NaN\<close> and the loop ends. The loop need not terminate: no result is
  \<open>None\<close>.\<close>

partial_function (option) eraseLoop ::
  "WebDFUDriver \<Rightarrow> DriverDFUse \<Rightarrow> int \<Rightarrow> int \<Rightarrow> DFUseMemorySegment option \<Rightarrow> int \<Rightarrow> int
   \<Rightarrow> event list \<Rightarrow> ((js_error + unit) \<times> event list) option" where
  "eraseLoop b d endAddr bytesToErase segment addr bytesErased tr =
     (if addr < endAddr then
        (case (if (case segment of None \<Rightarrow> 0 | Some s \<Rightarrow> seg_end s) \<le> addr
               then getSegment d addr else Inr segment) of
           Inl e \<Rightarrow> Some (Inl e, tr)
         | Inr segment \<Rightarrow>
             (case (case segment of None \<Rightarrow> None
                    | Some s \<Rightarrow> if erasable s then Some s else None) of
                None \<Rightarrow>
                  eraseLoop b d endAddr bytesToErase segment
                    (case segment of None \<Rightarrow> 0 | Some s \<Rightarrow> seg_end s)
                    (min (bytesErased + (case segment of None \<Rightarrow> 0 | Some s \<Rightarrow> seg_end s) - addr)
                         bytesToErase)
                    (tr @ [LogProgress
                             (min (bytesErased
                                   + (case segment of None \<Rightarrow> 0 | Some s \<Rightarrow> seg_end s) - addr)
                                  bytesToErase)
                             bytesToErase])
              | Some s \<Rightarrow>
                  (case dfuseCommand b ERASE_SECTOR (sectorStartOf addr s) 4 tr of
                     (Inl e, tr1) \<Rightarrow> Some (Inl e, tr1)
                   | (Inr _, tr1) \<Rightarrow>
                       (case sectorStartOf addr s of
                          NaN \<Rightarrow> Some (Inr (), tr1 @ [LogProgress bytesErased bytesToErase])
                        | Num sectorAddr \<Rightarrow>
                            eraseLoop b d endAddr bytesToErase (Some s)
                              (sectorAddr + sectorSize s) (bytesErased + sectorSize s)
                              (tr1 @ [LogProgress (bytesErased + sectorSize s) bytesToErase])))))
      else Some (Inr (), tr))"

text \<open>\<open>erase(startAddr, length)\<close>. When \<open>addr\<close> or \<open>endAddr\<close> is \<open>NaN\<close>, neither
  \<open>bytesToErase > 0\<close> nor \<open>addr < endAddr\<close> holds and nothing is done.\<close>

definition erase ::
  "WebDFUDriver \<Rightarrow> DriverDFUse \<Rightarrow> int \<Rightarrow> int \<Rightarrow> event list
   \<Rightarrow> ((js_error + unit) \<times> event list) option" where
  "erase b d startAddr len tr =
     (case getSegment d startAddr of
        Inl e \<Rightarrow> Some (Inl e, tr)
      | Inr segment \<Rightarrow>
          (case getSectorStart d startAddr (Some segment) of
             Inl e \<Rightarrow> Some (Inl e, tr)
           | Inr addr \<Rightarrow>
               (case getSectorEnd d (startAddr + len - 1) None of
                  Inl e \<Rightarrow> Some (Inl e, tr)
                | Inr endAddr \<Rightarrow>
                    (case segment of
                       None \<Rightarrow> Some (Inl UnknownSegment, tr)
                     | Some _ \<Rightarrow>
                         (case (addr, endAddr) of
                            (Num a, Num e) \<Rightarrow>
                              eraseLoop b d e (e - a) segment a 0
                                (if e - a > 0 then tr @ [LogProgress 0 (e - a)] else tr)
                          | _ \<Rightarrow> Some (Inr (), tr))))))"

subsection \<open>The write pipeline\<close>

text \<open>\<open>ArrayBuffer.prototype.slice(begin, end)\<close>: a negative index counts from the end,
  both are clamped to the buffer.\<close>

definition slice :: "nat list \<Rightarrow> int \<Rightarrow> int \<Rightarrow> nat list" where
  "slice buf beginIdx endIdx =
     (let len = int (length buf);
          first = (if beginIdx < 0 then max (len + beginIdx) 0 else min beginIdx len);
          final = (if endIdx < 0 then max (len + endIdx) 0 else min endIdx len)
      in take (nat (max (final - first) 0)) (drop (nat first) buf))"

text \<open>Lines 158 to 167 of \<open>do_write\<close>: the start address and the events so far, or the
  error thrown. \<open>!startAddress\<close> holds for \<open>undefined\<close> (no first segment) and for 0.\<close>

definition resolveStartAddress ::
  "DriverDFUse \<Rightarrow> MemoryInfo \<Rightarrow> event list \<Rightarrow> js_error + int \<times> event list" where
  "resolveStartAddress d mi tr =
     (case startAddress d of
        None \<Rightarrow>
          (case segments mi of
             [] \<Rightarrow> Inl StartAddressNotFound
           | s # _ \<Rightarrow>
               if seg_start s = 0 then Inl StartAddressNotFound
               else Inr (seg_start s, tr @ [LogWarning (InferredStartAddress (seg_start s))]))
      | Some a \<Rightarrow>
          (case getSegment d a of
             Inl e \<Rightarrow> Inl e
           | Inr None \<Rightarrow> Inr (a, tr @ [LogError (StartOutsideMemoryMap a)])
           | Inr (Some _) \<Rightarrow> Inr (a, tr)))"

text \<open>The \<open>while\<close> loop of \<open>do_write\<close>; its result is the final \<open>bytes_sent\<close>. Every
  error inside the \<open>try\<close> is wrapped. The loop need not terminate (a base driver may
  report no byte written for ever).\<close>

partial_function (option) writeLoop ::
  "WebDFUDriver \<Rightarrow> int \<Rightarrow> nat list \<Rightarrow> int \<Rightarrow> int \<Rightarrow> int \<Rightarrow> event list
   \<Rightarrow> ((js_error + int) \<times> event list) option" where
  "writeLoop b xfer_size data expected_size address bytes_sent tr =
     (if bytes_sent < expected_size then
        (case dfuseCommand b SET_ADDRESS (Num address) 4 tr of
           (Inl error, tr1) \<Rightarrow> Some (Inl (DfuSeWriteError error), tr1)
         | (Inr _, tr1) \<Rightarrow>
             (case base_write b tr1
                     (slice data bytes_sent
                        (bytes_sent + min (expected_size - bytes_sent) xfer_size)) 2 of
                Inl error \<Rightarrow>
                  Some (Inl (DfuSeWriteError error),
                        tr1 @ [Write (slice data bytes_sent
                                 (bytes_sent + min (expected_size - bytes_sent) xfer_size)) 2])
              | Inr bytes_written \<Rightarrow>
                  (case base_poll b
                          (tr1 @ [Write (slice data bytes_sent
                                    (bytes_sent + min (expected_size - bytes_sent) xfer_size)) 2])
                          PollUntilIdle of
                     Inl error \<Rightarrow>
                       Some (Inl (DfuSeWriteError error),
                             tr1 @ [Write (slice data bytes_sent
                                      (bytes_sent + min (expected_size - bytes_sent) xfer_size)) 2,
                                    Poll PollUntilIdle])
                   | Inr dfu_status \<Rightarrow>
                       if status dfu_status \<noteq> STATUS_OK b then
                         Some (Inl (DfuWriteFailed (state dfu_status) (status dfu_status)),
                               tr1 @ [Write (slice data bytes_sent
                                        (bytes_sent + min (expected_size - bytes_sent) xfer_size)) 2,
                                      Poll PollUntilIdle])
                       else
                         writeLoop b xfer_size data expected_size
                           (address + min (expected_size - bytes_sent) xfer_size)
                           (bytes_sent + bytes_written)
                           (tr1 @ [Write (slice data bytes_sent
                                     (bytes_sent + min (expected_size - bytes_sent) xfer_size)) 2,
                                   Poll PollUntilIdle,
                                   LogProgress (bytes_sent + bytes_written) expected_size]))))
      else Some (Inr bytes_sent, tr))"

text \<open>The manifestation, lines 198 to 210: a failure of the last poll is only logged.\<close>

definition manifest ::
  "WebDFUDriver \<Rightarrow> int \<Rightarrow> event list \<Rightarrow> (js_error + unit) \<times> event list" where
  "manifest b startAddr tr =
     (case dfuseCommand b SET_ADDRESS (Num startAddr) 4 tr of
        (Inl error, tr1) \<Rightarrow> (Inl (ManifestationError error), tr1)
      | (Inr _, tr1) \<Rightarrow>
          (case base_write b tr1 [] 0 of
             Inl error \<Rightarrow> (Inl (ManifestationError error), tr1 @ [Write [] 0])
           | Inr _ \<Rightarrow>
               (case base_poll b (tr1 @ [Write [] 0]) PollUntilManifest of
                  Inl error \<Rightarrow>
                    (Inr (), tr1 @ [Write [] 0, Poll PollUntilManifest, LogError (Thrown error)])
                | Inr _ \<Rightarrow> (Inr (), tr1 @ [Write [] 0, Poll PollUntilManifest]))))"

text \<open>Lines 168 to 211 of \<open>do_write\<close>, from the resolved start address on.\<close>

definition writeFrom ::
  "WebDFUDriver \<Rightarrow> DriverDFUse \<Rightarrow> int \<Rightarrow> nat list \<Rightarrow> int \<Rightarrow> event list
   \<Rightarrow> ((js_error + unit) \<times> event list) option" where
  "writeFrom b d xfer_size data startAddr tr =
     (case erase b d startAddr (int (length data)) tr of
        None \<Rightarrow> None
      | Some (Inl e, tr1) \<Rightarrow> Some (Inl e, tr1)
      | Some (Inr _, tr1) \<Rightarrow>
          (case writeLoop b xfer_size data (int (length data)) startAddr 0
                  (tr1 @ [LogInfo CopyingData]) of
             None \<Rightarrow> None
           | Some (Inl e, tr2) \<Rightarrow> Some (Inl e, tr2)
           | Some (Inr bytes_sent, tr2) \<Rightarrow>
               Some (manifest b startAddr
                       (tr2 @ [LogInfo (Wrote bytes_sent), LogInfo Manifesting]))))"

text \<open>\<open>do_write(xfer_size, data)\<close>.\<close>

definition do_write ::
  "WebDFUDriver \<Rightarrow> DriverDFUse \<Rightarrow> int \<Rightarrow> nat list \<Rightarrow> event list
   \<Rightarrow> ((js_error + unit) \<times> event list) option" where
  "do_write b d xfer_size data tr =
     (case memoryInfo d of
        None \<Rightarrow> Some (Inl NoMemoryMapAvailable, tr)
      | Some mi \<Rightarrow>
          (case resolveStartAddress d mi (tr @ [LogInfo ErasingMemory]) of
             Inl e \<Rightarrow> Some (Inl e, tr @ [LogInfo ErasingMemory])
           | Inr (startAddr, tr1) \<Rightarrow> writeFrom b d xfer_size data startAddr tr1))"

subsection \<open>The memory map of the data model\<close>

text \<open>Segments sorted by start and non-overlapping: each segment ends before every later
  one starts.\<close>

definition sortedNonOverlapping :: "DFUseMemorySegment list \<Rightarrow> bool" where
  "sortedNonOverlapping segs = sorted_wrt (\<lambda>s t. seg_end s \<le> seg_start t) segs"

subsection \<open>The properties, in the words of the specification\<close>

text \<open>The number that a sequence of bytes denotes, least significant byte first.\<close>

fun uintLE :: "nat list \<Rightarrow> int" where
  "uintLE [] = 0"
| "uintLE (byte # rest) = int byte + 256 * uintLE rest"

text \<open>\<open>getMaxReadSize\<close> as the specification describes it: find the segment that
  contains \<open>startAddr\<close>; if it is not readable the result is 0, otherwise its remaining
  bytes, extended through the following segments as long as the next one starts at
  \<open>startAddr\<close> plus the bytes accumulated and is readable, stopping at the first segment
  that is not readable or not contiguous. No segment contains \<open>startAddr\<close>: 0.\<close>

fun extendReadable :: "int \<Rightarrow> int \<Rightarrow> DFUseMemorySegment list \<Rightarrow> int" where
  "extendReadable startAddr accumulated [] = accumulated"
| "extendReadable startAddr accumulated (next # rest) =
     (if seg_start next = startAddr + accumulated \<and> readable next
      then extendReadable startAddr (accumulated + (seg_end next - seg_start next)) rest
      else accumulated)"

fun contiguousReadable :: "int \<Rightarrow> DFUseMemorySegment list \<Rightarrow> int" where
  "contiguousReadable startAddr [] = 0"
| "contiguousReadable startAddr (s # rest) =
     (if seg_start s \<le> startAddr \<and> startAddr < seg_end s then
        (if readable s then extendReadable startAddr (seg_end s - startAddr) rest else 0)
      else contiguousReadable startAddr rest)"

text \<open>The device writes of a run: the payload and the block index of each
  \<open>this.write\<close>, in order.\<close>

fun writesOf :: "event list \<Rightarrow> (nat list \<times> nat) list" where
  "writesOf [] = []"
| "writesOf (Write payload blockIndex # tr) = (payload, blockIndex) # writesOf tr"
| "writesOf (_ # tr) = writesOf tr"

text \<open>The device write of a DfuSe command with a 4-byte parameter.\<close>

definition commandWrite :: "int \<Rightarrow> int \<Rightarrow> nat list \<times> nat" where
  "commandWrite command param = (toUint8 (Num command) # uint32LE (Num param), 0)"

text \<open>The device writes of the write loop and the manifestation, as the specification
  counts them: for each \<open>i\<close> below \<open>ceil(N / C)\<close> a \<open>SET_ADDRESS\<close> with the parameter
  \<open>startAddress + i * C\<close> and then the bytes \<open>[i * C, min((i + 1) * C, N))\<close> of the image
  at the block index 2; after them one \<open>SET_ADDRESS\<close> with the start address and one
  write of no bytes at the block index 0.\<close>

definition expectedWrites :: "int \<Rightarrow> int \<Rightarrow> nat list \<Rightarrow> (nat list \<times> nat) list" where
  "expectedWrites startAddr C data =
     concat (map (\<lambda>i. [commandWrite SET_ADDRESS (startAddr + int i * C),
                       (map ((!) data) [i * nat C ..< min ((i + 1) * nat C) (length data)], 2)])
               [0 ..< (length data + nat C - 1) div nat C])
     @ [commandWrite SET_ADDRESS startAddr, ([], 0)]"

text \<open>The erase engine relies on the descriptor's contract: every sector size is positive and
  divides the length of its segment.\<close>

definition sectorsTile :: "DFUseMemorySegment list \<Rightarrow> bool" where
  "sectorsTile segs =
     (\<forall>s \<in> set segs. 0 < sectorSize s \<and> sectorSize s dvd (seg_end s - seg_start s))"

text \<open>The sector starts of erasable segments: an address inside an erasable segment, a
  multiple of the sector size away from the segment's start. \<open>erasableSectorStarts\<close> are
  those of a span \<open>[lo, hi)\<close>, in ascending order: the sectors of the erasable portion of
  the span.\<close>

definition isErasableSectorStart :: "DFUseMemorySegment list \<Rightarrow> int \<Rightarrow> bool" where
  "isErasableSectorStart segs a =
     (\<exists>s \<in> set segs. erasable s \<and> seg_start s \<le> a \<and> a < seg_end s
                      \<and> sectorSize s dvd (a - seg_start s))"

definition erasableSectorStarts :: "DFUseMemorySegment list \<Rightarrow> int \<Rightarrow> int \<Rightarrow> int list" where
  "erasableSectorStarts segs lo hi = filter (isErasableSectorStart segs) [lo .. hi - 1]"

text \<open>A span without a gap: every address of \<open>[lo, hi)\<close> lies in some segment.\<close>

definition coveredFrom :: "DFUseMemorySegment list \<Rightarrow> int \<Rightarrow> int \<Rightarrow> bool" where
  "coveredFrom segs lo hi = (\<forall>a \<in> set [lo .. hi - 1]. findSegment a segs \<noteq> None)"

text \<open>The invariant of the erase loop: the address is on a sector boundary of its segment;
  the end of the span is on a sector boundary inside or at the end of a segment.\<close>

definition alignedIn :: "DFUseMemorySegment list \<Rightarrow> int \<Rightarrow> bool" where
  "alignedIn segs a =
     (\<forall>s. findSegment a segs = Some s \<longrightarrow> sectorSize s dvd (a - seg_start s))"

definition endAligned :: "DFUseMemorySegment list \<Rightarrow> int \<Rightarrow> bool" where
  "endAligned segs hi =
     (\<exists>s \<in> set segs. seg_start s < hi \<and> hi \<le> seg_end s \<and> sectorSize s dvd (hi - seg_start s))"

text \<open>The assumptions on the base driver: every write reports every requested byte as
  written, and every poll reports the status OK.\<close>

definition reportsAllWritten :: "WebDFUDriver \<Rightarrow> bool" where
  "reportsAllWritten b =
     (\<forall>tr payload blockIndex. base_write b tr payload blockIndex = Inr (int (length payload)))"

definition pollsOK :: "WebDFUDriver \<Rightarrow> bool" where
  "pollsOK b = (\<forall>tr c. \<exists>st. base_poll b tr c = Inr st \<and> status st = STATUS_OK b)"

subsection \<open>Concrete drivers and memory maps\<close>

text \<open>A base driver that reports every requested byte as written and answers every
  poll with the status OK.\<close>

definition okDevice :: WebDFUDriver where
  "okDevice =
     \<lparr>STATUS_OK = 0,
      base_write = (\<lambda>tr payload blockIndex. Inr (int (length payload))),
      base_poll = (\<lambda>tr c. Inr \<lparr>state = 5, status = 0\<rparr>),
      maxByteLength = 2147483647\<rparr>"

text \<open>A base driver whose polls report an error status.\<close>

definition failingDevice :: WebDFUDriver where
  "failingDevice =
     \<lparr>STATUS_OK = 0,
      base_write = (\<lambda>tr payload blockIndex. Inr (int (length payload))),
      base_poll = (\<lambda>tr c. Inr \<lparr>state = 10, status = 14\<rparr>),
      maxByteLength = 2147483647\<rparr>"

definition flashSegments :: "DFUseMemorySegment list" where
  "flashSegments =
     [\<lparr>seg_start = 0x08000000, seg_end = 0x08004000, sectorSize = 0x800,
       readable = True, erasable = True, writable = True\<rparr>,
      \<lparr>seg_start = 0x08004000, seg_end = 0x08008000, sectorSize = 0x800,
       readable = True, erasable = True, writable = True\<rparr>]"

definition flashDriver :: DriverDFUse where
  "flashDriver = \<lparr>startAddress = None,
                   memoryInfo = Some \<lparr>name = ''Internal Flash'', segments = flashSegments\<rparr>\<rparr>"

definition noMapDriver :: DriverDFUse where
  "noMapDriver = \<lparr>startAddress = None, memoryInfo = None\<rparr>"

definition smallSegments :: "DFUseMemorySegment list" where
  "smallSegments =
     [\<lparr>seg_start = 16, seg_end = 32, sectorSize = 16,
       readable = True, erasable = False, writable = False\<rparr>,
      \<lparr>seg_start = 32, seg_end = 64, sectorSize = 16,
       readable = True, erasable = True, writable = True\<rparr>]"

definition smallDriver :: "int option \<Rightarrow> DriverDFUse" where
  "smallDriver override =
     \<lparr>startAddress = override, memoryInfo = Some \<lparr>name = ''Flash'', segments = smallSegments\<rparr>\<rparr>"

text \<open>A memory map with a gap between its two segments.\<close>

definition gapSegments :: "DFUseMemorySegment list" where
  "gapSegments =
     [\<lparr>seg_start = 16, seg_end = 32, sectorSize = 16,
       readable = True, erasable = True, writable = True\<rparr>,
      \<lparr>seg_start = 48, seg_end = 64, sectorSize = 16,
       readable = True, erasable = True, writable = True\<rparr>]"

definition gapDriver :: DriverDFUse where
  "gapDriver = \<lparr>startAddress = None,
                 memoryInfo = Some \<lparr>name = ''Flash'', segments = gapSegments\<rparr>\<rparr>"

text \<open>A memory map whose sector size does not divide the length of its segments.\<close>

definition unevenSegments :: "DFUseMemorySegment list" where
  "unevenSegments =
     [\<lparr>seg_start = 0, seg_end = 6, sectorSize = 4,
       readable = True, erasable = True, writable = True\<rparr>,
      \<lparr>seg_start = 6, seg_end = 14, sectorSize = 4,
       readable = True, erasable = True, writable = True\<rparr>]"

definition unevenDriver :: DriverDFUse where
  "unevenDriver = \<lparr>startAddress = None,
                    memoryInfo = Some \<lparr>name = ''Flash'', segments = unevenSegments\<rparr>\<rparr>"

subsection \<open>Facts about the queries\<close>

lemma findSegment_Some:
  "findSegment a segs = Some s \<Longrightarrow> s \<in> set segs \<and> seg_start s \<le> a \<and> a < seg_end s"
  by (induction segs) (auto split: if_splits)

lemma findSegment_None:
  "findSegment a segs = None \<longleftrightarrow> (\<forall>s \<in> set segs. \<not> (seg_start s \<le> a \<and> a < seg_end s))"
  by (induction segs) auto

lemma findSegment_unique:
  "sortedNonOverlapping segs \<Longrightarrow> s \<in> set segs \<Longrightarrow> seg_start s \<le> a \<Longrightarrow> a < seg_end s
   \<Longrightarrow> findSegment a segs = Some s"
  unfolding sortedNonOverlapping_def
proof (induction segs)
  case Nil
  then show ?case by simp
next
  case (Cons t rest)
  show ?case
  proof (cases "seg_start t \<le> a \<and> a < seg_end t")
    case True
    have "s = t"
    proof (rule ccontr)
      assume "s \<noteq> t"
      with Cons.prems have "s \<in> set rest" by simp
      with Cons.prems have "seg_end t \<le> seg_start s" by simp
      with True Cons.prems show False by simp
    qed
    with True show ?thesis by simp
  next
    case False
    with Cons.prems have "s \<in> set rest" by auto
    with Cons.prems have "findSegment a rest = Some s" by (simp add: Cons.IH)
    with False show ?thesis by auto
  qed
qed

text \<open>C5. \<open>getSegment\<close> on a loaded map whose segments are sorted and non-overlapping:
  for an address inside a segment \<open>s\<close> of the map the result is \<open>s\<close>, and that segment
  contains the address; for an address outside all segments the result is none. Without
  a memory map it fails with the no-memory-map error, whatever the address.\<close>

theorem getSegment_correct:
  "(memoryInfo d = Some mi \<and> sortedNonOverlapping (segments mi) \<longrightarrow>
      (\<forall>s \<in> set (segments mi). seg_start s \<le> a \<and> a < seg_end s \<longrightarrow>
          getSegment d a = Inr (Some s))
    \<and> ((\<forall>s \<in> set (segments mi). \<not> (seg_start s \<le> a \<and> a < seg_end s)) \<longrightarrow>
          getSegment d a = Inr None))
   \<and> (memoryInfo d = None \<longrightarrow> getSegment d a = Inl NoMemoryMapInformation)"
  by (auto simp: getSegment_def findSegment_unique findSegment_None)

text \<open>Witness for C5: the flash map, and a driver without a memory map.\<close>

theorem getSegment_correct_witness:
  "getSegment flashDriver 0x08004010 = Inr (Some (flashSegments ! 1))
   \<and> getSegment flashDriver 0x08008000 = Inr None
   \<and> getSegment noMapDriver 0x08004010 = Inl NoMemoryMapInformation"
proof -
  let ?mi = "\<lparr>name = ''Internal Flash'', segments = flashSegments\<rparr>"
  have mi: "memoryInfo flashDriver = Some ?mi \<and> sortedNonOverlapping (segments ?mi)"
    by (simp add: flashDriver_def sortedNonOverlapping_def flashSegments_def)
  have ins: "flashSegments ! 1 \<in> set (segments ?mi)"
    "seg_start (flashSegments ! 1) \<le> 0x08004010 \<and> 0x08004010 < seg_end (flashSegments ! 1)"
    and out: "\<forall>s \<in> set (segments ?mi). \<not> (seg_start s \<le> 0x08008000 \<and> 0x08008000 < seg_end s)"
    and no: "memoryInfo noMapDriver = None"
    by (simp_all add: flashSegments_def noMapDriver_def)
  from getSegment_correct [of flashDriver ?mi "0x08004010"]
    getSegment_correct [of flashDriver ?mi "0x08008000"]
    getSegment_correct [of noMapDriver ?mi "0x08004010"] mi ins out no
  show ?thesis by blast
qed

subsection \<open>Sector boundaries\<close>

lemma sectorStart_arith:
  fixes a st ss :: int
  assumes "0 < ss"
  shows "st + ((a - st) div ss) * ss = a - (a - st) mod ss"
proof -
  have "(a - st) div ss * ss + (a - st) mod ss = a - st" by simp
  then show ?thesis by linarith
qed

text \<open>C8. In a loaded memory map whose segments have a positive sector size, for every
  address \<open>a\<close> inside some segment: \<open>getSectorStart(a) \<le> a < getSectorStart(a) + sectorSize\<close>,
  and \<open>getSectorEnd(a) = getSectorStart(a) + sectorSize\<close>, where \<open>sectorSize\<close> is that of
  the segment that \<open>getSegment(a)\<close> returns. In particular, for \<open>a\<close> on a sector boundary
  (\<open>getSectorStart(a) = a\<close>) \<open>getSectorEnd(a)\<close> is \<open>a + sectorSize\<close>, not \<open>a\<close>.\<close>

theorem sector_bounds:
  assumes "memoryInfo d = Some mi"
    and "t \<in> set (segments mi)" and "seg_start t \<le> a" and "a < seg_end t"
    and "\<forall>s \<in> set (segments mi). 0 < sectorSize s"
  shows "\<exists>s x. getSegment d a = Inr (Some s)
           \<and> getSectorStart d a None = Inr (Num x)
           \<and> x \<le> a \<and> a < x + sectorSize s
           \<and> getSectorEnd d a None = Inr (Num (x + sectorSize s))
           \<and> (x = a \<longrightarrow> getSectorEnd d a None = Inr (Num (a + sectorSize s)))"
proof -
  from assms(2-4) have "findSegment a (segments mi) \<noteq> None"
    by (auto simp: findSegment_None)
  then obtain s where s: "findSegment a (segments mi) = Some s" by auto
  then have "s \<in> set (segments mi)" by (simp add: findSegment_Some)
  with assms(5) have pos: "0 < sectorSize s" by simp
  let ?x = "a - (a - seg_start s) mod sectorSize s"
  have m: "0 \<le> (a - seg_start s) mod sectorSize s" "(a - seg_start s) mod sectorSize s < sectorSize s"
    using pos by simp_all
  have st: "getSectorStart d a None = Inr (Num ?x)"
    using assms(1) s pos
    by (simp add: getSectorStart_def getSegment_def sectorStartOf_def sectorStart_arith)
  have en: "getSectorEnd d a None = Inr (Num (?x + sectorSize s))"
    using assms(1) s pos sectorStart_arith [of "sectorSize s" "seg_start s" a]
    by (simp add: getSectorEnd_def getSegment_def sectorEndOf_def algebra_simps)
  have "getSegment d a = Inr (Some s)" using assms(1) s by (simp add: getSegment_def)
  with st en m show ?thesis by (intro exI [of _ s] exI [of _ ?x]) auto
qed

text \<open>Witness for C8: the second segment of the flash map, at a sector boundary.\<close>

theorem sector_bounds_witness:
  "getSectorStart flashDriver 0x08004800 None = Inr (Num 0x08004800)
   \<and> getSectorEnd flashDriver 0x08004800 None = Inr (Num 0x08005000)"
proof -
  have mi: "memoryInfo flashDriver = Some \<lparr>name = ''Internal Flash'', segments = flashSegments\<rparr>"
    by (simp add: flashDriver_def)
  have pos: "\<forall>s \<in> set (segments \<lparr>name = ''Internal Flash'', segments = flashSegments\<rparr>). 0 < sectorSize s"
    by (simp add: flashSegments_def)
  have mem: "(flashSegments ! 1) \<in> set (segments \<lparr>name = ''Internal Flash'', segments = flashSegments\<rparr>)"
    by (simp add: flashSegments_def)
  have lo: "seg_start (flashSegments ! 1) \<le> 0x08004800" and hi: "0x08004800 < seg_end (flashSegments ! 1)"
    by (simp_all add: flashSegments_def)
  from sector_bounds [OF mi mem lo hi pos]
  show ?thesis
    by (auto simp: getSegment_def flashDriver_def flashSegments_def getSectorStart_def sectorStartOf_def)
qed

subsection \<open>The readable span\<close>

lemma maxReadLoop_beyond:
  "\<forall>s \<in> set rest. a + n < seg_start s \<Longrightarrow> 0 \<le> n \<Longrightarrow> maxReadLoop a n rest = n"
  by (induction rest) auto

lemma maxReadLoop_extend:
  "sorted_wrt (\<lambda>s t. seg_end s \<le> seg_start t) rest \<Longrightarrow> \<forall>s \<in> set rest. seg_start s < seg_end s
   \<Longrightarrow> \<forall>s \<in> set rest. a + n \<le> seg_start s \<Longrightarrow> 0 < n
   \<Longrightarrow> maxReadLoop a n rest = extendReadable a n rest"
proof (induction rest arbitrary: n)
  case Nil
  then show ?case by simp
next
  case (Cons s rest)
  from Cons.prems have notin: "\<not> seg_start s \<le> a" by auto
  show ?case
  proof (cases "seg_start s = a + n")
    case True
    show ?thesis
    proof (cases "readable s")
      case True
      have "maxReadLoop a (n + (seg_end s - seg_start s)) rest
            = extendReadable a (n + (seg_end s - seg_start s)) rest"
      proof (rule Cons.IH)
        show "\<forall>t \<in> set rest. a + (n + (seg_end s - seg_start s)) \<le> seg_start t"
          using Cons.prems \<open>seg_start s = a + n\<close> by auto
        show "0 < n + (seg_end s - seg_start s)" using Cons.prems by auto
      qed (use Cons.prems in auto)
      with True notin \<open>seg_start s = a + n\<close> show ?thesis by simp
    next
      case False
      with True notin show ?thesis by simp
    qed
  next
    case False
    have "maxReadLoop a n rest = n"
    proof (rule maxReadLoop_beyond)
      show "\<forall>t \<in> set rest. a + n < seg_start t"
      proof
        fix t assume "t \<in> set rest"
        with Cons.prems have "seg_end s \<le> seg_start t" "seg_start s < seg_end s" "a + n \<le> seg_start s"
          by auto
        with False show "a + n < seg_start t" by linarith
      qed
      show "0 \<le> n" using Cons.prems by simp
    qed
    with False notin show ?thesis by simp
  qed
qed

lemma maxReadLoop_contiguousReadable:
  "sorted_wrt (\<lambda>s t. seg_end s \<le> seg_start t) segs \<Longrightarrow> \<forall>s \<in> set segs. seg_start s < seg_end s
   \<Longrightarrow> maxReadLoop a 0 segs = contiguousReadable a segs"
proof (induction segs)
  case Nil
  then show ?case by simp
next
  case (Cons s rest)
  show ?case
  proof (cases "seg_start s \<le> a \<and> a < seg_end s")
    case True
    show ?thesis
    proof (cases "readable s")
      case True
      have "maxReadLoop a (seg_end s - a) rest = extendReadable a (seg_end s - a) rest"
        by (rule maxReadLoop_extend) (use Cons.prems \<open>seg_start s \<le> a \<and> a < seg_end s\<close> in auto)
      with True \<open>seg_start s \<le> a \<and> a < seg_end s\<close> show ?thesis by simp
    next
      case False
      with True show ?thesis by simp
    qed
  next
    case False
    from Cons.prems have "seg_start s < seg_end s" by simp
    with False have "seg_start s \<noteq> a + 0" by auto
    moreover have "maxReadLoop a 0 rest = contiguousReadable a rest"
      using Cons by simp
    ultimately show ?thesis using False by auto
  qed
qed

lemma contiguousReadable_outside:
  "findSegment a segs = None \<Longrightarrow> contiguousReadable a segs = 0"
  by (induction segs) (auto split: if_splits)

lemma contiguousReadable_unreadable:
  "findSegment a segs = Some s \<Longrightarrow> \<not> readable s \<Longrightarrow> contiguousReadable a segs = 0"
  by (induction segs) (auto split: if_splits)

text \<open>C6. With a loaded memory map (segments sorted by start, non-overlapping, none empty,
  as the data model has them) \<open>getMaxReadSize(startAddr)\<close> is what the specification
  describes (\<open>contiguousReadable\<close>): 0 when the segment containing \<open>startAddr\<close> is not
  readable; otherwise the remaining bytes of that segment plus the lengths of the following
  segments that start where the bytes accumulated so far end, up to the first segment that
  is not readable or not contiguous; and 0, not an error, when no segment contains
  \<open>startAddr\<close>.\<close>

theorem getMaxReadSize_contiguous:
  assumes "memoryInfo d = Some mi"
    and "sortedNonOverlapping (segments mi)"
    and "\<forall>s \<in> set (segments mi). seg_start s < seg_end s"
  shows "getMaxReadSize d startAddr = Inr (contiguousReadable startAddr (segments mi))
         \<and> (\<forall>s. findSegment startAddr (segments mi) = Some s \<and> \<not> readable s \<longrightarrow>
                getMaxReadSize d startAddr = Inr 0)
         \<and> (findSegment startAddr (segments mi) = None \<longrightarrow> getMaxReadSize d startAddr = Inr 0)"
  using assms
  by (simp add: getMaxReadSize_def sortedNonOverlapping_def maxReadLoop_contiguousReadable
      contiguousReadable_outside contiguousReadable_unreadable)

text \<open>Witness for C6: two contiguous readable segments of 0x4000 bytes each.\<close>

theorem getMaxReadSize_contiguous_witness:
  "getMaxReadSize flashDriver 0x08000000 = Inr 0x8000
   \<and> getMaxReadSize flashDriver 0x08001000 = Inr 0x7000
   \<and> getMaxReadSize flashDriver 0x07000000 = Inr 0"
proof -
  let ?mi = "\<lparr>name = ''Internal Flash'', segments = flashSegments\<rparr>"
  have mi: "memoryInfo flashDriver = Some ?mi"
    by (simp add: flashDriver_def)
  have so: "sortedNonOverlapping (segments ?mi)"
    by (simp add: sortedNonOverlapping_def flashSegments_def)
  have ne: "\<forall>s \<in> set (segments ?mi). seg_start s < seg_end s"
    by (simp add: flashSegments_def)
  show ?thesis
    using getMaxReadSize_contiguous [OF mi so ne, of "0x08000000"]
      getMaxReadSize_contiguous [OF mi so ne, of "0x08001000"]
      getMaxReadSize_contiguous [OF mi so ne, of "0x07000000"]
    by (simp add: flashSegments_def)
qed

subsection \<open>The command payload\<close>

lemma bufferLimit_bounds: "5 \<le> bufferLimit b \<and> bufferLimit b \<le> 9007199254740991"
  by (simp add: bufferLimit_def)

lemma dfusePayload_len1:
  "dfusePayload (bufferLimit b) c p 1 = Inr [toUint8 (Num c), toUint8 p]"
  using bufferLimit_bounds [of b] by (simp add: dfusePayload_def Let_def numeral_2_eq_2)

lemma replicate5: "replicate 5 (0::nat) = [0, 0, 0, 0, 0]"
  by (simp add: eval_nat_numeral)

lemma dfusePayload_len4:
  "dfusePayload (bufferLimit b) c p 4 = Inr (toUint8 (Num c) # uint32LE p)"
  using bufferLimit_bounds [of b]
  by (simp add: dfusePayload_def Let_def uint32LE_def replicate5 numeral_2_eq_2 numeral_3_eq_3
      eval_nat_numeral(2) [of "num.Bit0 num.One"])

lemma dfusePayload_other:
  "0 \<le> len \<Longrightarrow> len + 1 \<le> limit \<Longrightarrow> len \<noteq> 1 \<Longrightarrow> len \<noteq> 4
   \<Longrightarrow> dfusePayload limit c p len = Inl (UnsupportedParamLength len)"
  by (simp add: dfusePayload_def Let_def)

lemma dfusePayload_RangeError:
  "len < 0 \<or> limit < len + 1 \<Longrightarrow> dfusePayload limit c p len = Inl RangeError"
  by (auto simp add: dfusePayload_def Let_def)

lemma le32_digits:
  fixes v q0 r0 q1 r1 q2 r2 :: int
  assumes "256 * q0 + r0 = v" and "256 * q1 + r1 = q0" and "256 * q2 + r2 = q1"
  shows "r0 + 256 * (r1 + 256 * (r2 + 256 * (q2 + 256 * 0))) = v"
  using assms by simp

lemma le32_arith:
  fixes v :: int
  assumes "0 \<le> v" and "v < 4294967296"
  shows "v mod 256 + 256 * (v div 256 mod 256 + 256 * (v div 65536 mod 256
         + 256 * (v div 16777216 mod 256 + 256 * 0))) = v"
proof -
  have a: "v div 65536 = v div 256 div 256"
    using zdiv_zmult2_eq [of 256 v 256] by simp
  have b: "v div 16777216 = v div 65536 div 256"
    using zdiv_zmult2_eq [of 256 v 65536] by simp
  have "v \<le> 4294967295" using assms by simp
  then have "v div 16777216 \<le> 4294967295 div 16777216" by (rule zdiv_mono1) simp
  then have "v div 16777216 < 256" by simp
  moreover have "0 \<le> v div 16777216" using assms by (simp add: pos_imp_zdiv_nonneg_iff)
  ultimately have c: "v div 16777216 mod 256 = v div 16777216" by (rule mod_pos_pos_trivial [rotated])
  have "v mod 256 + 256 * (v div 256 mod 256 + 256 * (v div 65536 mod 256
        + 256 * (v div 65536 div 256 + 256 * 0))) = v"
  proof (rule le32_digits)
    show "256 * (v div 256) + v mod 256 = v" by (rule mult_div_mod_eq)
    show "256 * (v div 65536) + v div 256 mod 256 = v div 256"
      unfolding a by (rule mult_div_mod_eq)
    show "256 * (v div 65536 div 256) + v div 65536 mod 256 = v div 65536"
      by (rule mult_div_mod_eq)
  qed
  then show ?thesis unfolding c unfolding b .
qed

lemma toUint32_range: "0 \<le> toUint32 p \<and> toUint32 p < 4294967296"
  by (cases p) (simp_all add: toUint32_def)

lemma uint32LE_value: "uintLE (uint32LE p) = toUint32 p"
proof -
  have i: "\<And>x::int. int (nat (x mod 256)) = x mod 256" by simp
  have "uintLE (uint32LE p) =
        toUint32 p mod 256 + 256 * (toUint32 p div 256 mod 256 + 256 * (toUint32 p div 65536 mod 256
         + 256 * (toUint32 p div 16777216 mod 256 + 256 * 0)))"
    unfolding uint32LE_def by (simp only: uintLE.simps i)
  also have "\<dots> = toUint32 p"
    using toUint32_range [of p] by (intro le32_arith) simp_all
  finally show ?thesis .
qed

lemma uint32LE_bytes: "length (uint32LE p) = 4 \<and> (\<forall>x \<in> set (uint32LE p). x < 256)"
  by (simp add: uint32LE_def nat_less_iff)

lemma dfuseCommand_sends:
  "dfusePayload (bufferLimit b) c p len = Inr payload \<Longrightarrow>
   \<exists>r rest. dfuseCommand b c p len tr = (r, tr @ Write payload 0 # rest)"
  by (auto simp: dfuseCommand_def split: sum.splits)

text \<open>C4, as stated, fails for a negative length and for a length beyond every buffer:
  \<open>dfuseCommand(ERASE_SECTOR, 0, -1)\<close> allocates a buffer of no bytes, and writing the
  command byte into it raises a \<open>RangeError\<close>; with \<open>len = 2 ^ 53 - 1\<close>
  \<open>new ArrayBuffer(len + 1)\<close> raises a \<open>RangeError\<close>. Neither is the unsupported-length
  error.\<close>

theorem dfuseCommand_negative_length:
  "dfuseCommand okDevice ERASE_SECTOR (Num 0) (- 1) [] = (Inl RangeError, [])
   \<and> RangeError \<noteq> UnsupportedParamLength (- 1)
   \<and> dfuseCommand okDevice ERASE_SECTOR (Num 0) 9007199254740991 [] = (Inl RangeError, [])
   \<and> RangeError \<noteq> UnsupportedParamLength 9007199254740991"
  using bufferLimit_bounds [of okDevice]
  by (simp add: dfuseCommand_def dfusePayload_RangeError)

text \<open>C4, amended. \<open>dfuseCommand\<close> sends, as its first event, a payload whose byte 0 is
  the command (modulo 256: a command byte \<open>c\<close> itself) followed by the parameter as one byte
  when \<open>len = 1\<close> and as four bytes, least significant first, when \<open>len = 4\<close> (the
  parameter modulo \<open>2 ^ 32\<close>: a 32-bit parameter itself). For every length from 0 on
  other than 1 and 4 whose buffer of \<open>len + 1\<close> bytes the engine allocates, it throws the
  unsupported-length error; for a negative length and for a buffer that the engine does
  not allocate (any buffer of more than \<open>2 ^ 53 - 1\<close> bytes among them) it throws a
  \<open>RangeError\<close>. In both cases the events are unchanged: nothing was sent.\<close>

theorem dfuseCommand_layout:
  "(\<exists>r rest. dfuseCommand b c p 1 tr = (r, tr @ Write [toUint8 (Num c), toUint8 p] 0 # rest))
   \<and> (\<exists>r rest. dfuseCommand b c p 4 tr = (r, tr @ Write (toUint8 (Num c) # uint32LE p) 0 # rest))
   \<and> length (uint32LE p) = 4 \<and> (\<forall>x \<in> set (uint32LE p). x < 256) \<and> uintLE (uint32LE p) = toUint32 p
   \<and> (0 \<le> c \<and> c < 256 \<longrightarrow> toUint8 (Num c) = nat c)
   \<and> (0 \<le> n \<and> n < 256 \<longrightarrow> toUint8 (Num n) = nat n)
   \<and> (0 \<le> n \<and> n < 2 ^ 32 \<longrightarrow> toUint32 (Num n) = n)
   \<and> (0 \<le> len \<and> len + 1 \<le> bufferLimit b \<and> len \<noteq> 1 \<and> len \<noteq> 4 \<longrightarrow>
        dfuseCommand b c p len tr = (Inl (UnsupportedParamLength len), tr))
   \<and> (len < 0 \<or> bufferLimit b < len + 1 \<longrightarrow> dfuseCommand b c p len tr = (Inl RangeError, tr))
   \<and> (9007199254740991 \<le> len \<longrightarrow> dfuseCommand b c p len tr = (Inl RangeError, tr))"
proof -
  have "\<exists>r rest. dfuseCommand b c p 1 tr = (r, tr @ Write [toUint8 (Num c), toUint8 p] 0 # rest)"
    by (rule dfuseCommand_sends) (rule dfusePayload_len1)
  moreover have
    "\<exists>r rest. dfuseCommand b c p 4 tr = (r, tr @ Write (toUint8 (Num c) # uint32LE p) 0 # rest)"
    by (rule dfuseCommand_sends) (rule dfusePayload_len4)
  moreover have "0 \<le> len \<and> len + 1 \<le> bufferLimit b \<and> len \<noteq> 1 \<and> len \<noteq> 4 \<longrightarrow>
        dfuseCommand b c p len tr = (Inl (UnsupportedParamLength len), tr)"
    by (simp add: dfuseCommand_def dfusePayload_other)
  moreover have range:
    "len < 0 \<or> bufferLimit b < len + 1 \<longrightarrow> dfuseCommand b c p len tr = (Inl RangeError, tr)"
    by (simp add: dfuseCommand_def dfusePayload_RangeError)
  moreover have "9007199254740991 \<le> len \<longrightarrow> dfuseCommand b c p len tr = (Inl RangeError, tr)"
    using range bufferLimit_bounds [of b] by auto
  moreover have "0 \<le> c \<and> c < 256 \<longrightarrow> toUint8 (Num c) = nat c"
    and "0 \<le> n \<and> n < 256 \<longrightarrow> toUint8 (Num n) = nat n"
    and "0 \<le> n \<and> n < 2 ^ 32 \<longrightarrow> toUint32 (Num n) = n"
    by (simp_all add: toUint8_def toUint32_def)
  ultimately show ?thesis using uint32LE_bytes [of p] uint32LE_value [of p] by blast
qed

text \<open>Witness for C4: the length 2, the command byte 65 and the parameter 7; the lengths
  \<open>- 3\<close> and \<open>2 ^ 53 - 1\<close>.\<close>

theorem dfuseCommand_layout_witness:
  "dfuseCommand okDevice ERASE_SECTOR (Num 7) 2 [] = (Inl (UnsupportedParamLength 2), [])
   \<and> toUint8 (Num ERASE_SECTOR) = 65 \<and> toUint8 (Num 7) = 7 \<and> toUint32 (Num 7) = 7
   \<and> dfuseCommand okDevice ERASE_SECTOR (Num 7) (- 3) [] = (Inl RangeError, [])
   \<and> dfuseCommand okDevice ERASE_SECTOR (Num 7) 9007199254740991 [] = (Inl RangeError, [])"
proof -
  have c: "0 \<le> ERASE_SECTOR \<and> ERASE_SECTOR < 256" by (simp add: ERASE_SECTOR_def)
  have n: "0 \<le> (7::int) \<and> (7::int) < 256" "0 \<le> (7::int) \<and> (7::int) < 2 ^ 32" by simp_all
  have l: "0 \<le> (2::int) \<and> (2::int) + 1 \<le> bufferLimit okDevice \<and> (2::int) \<noteq> 1 \<and> (2::int) \<noteq> 4"
    by (simp add: bufferLimit_def okDevice_def)
  have m: "(- 3::int) < 0 \<or> bufferLimit okDevice < - 3 + 1" by simp
  have k: "(9007199254740991::int) \<le> 9007199254740991" by simp
  from dfuseCommand_layout [of okDevice ERASE_SECTOR "Num 7" "[]" 7 2]
    dfuseCommand_layout [of okDevice ERASE_SECTOR "Num 7" "[]" 7 "- 3"]
    dfuseCommand_layout [of okDevice ERASE_SECTOR "Num 7" "[]" 7 9007199254740991] c n l m k
  show ?thesis by (simp add: ERASE_SECTOR_def)
qed

subsection \<open>Start addresses outside the memory map\<close>

lemma erase_outside:
  "memoryInfo d = Some mi \<Longrightarrow> findSegment startAddr (segments mi) = None
   \<Longrightarrow> erase b d startAddr len tr = Some (Inl (AddressOutsideOfMemoryMap startAddr), tr)"
  by (simp add: erase_def getSegment_def getSectorStart_def)

text \<open>C9, as stated, fails: for a start address outside the map \<open>erase\<close> throws the
  address-outside-of-memory-map error of \<open>getSectorStart\<close>; the test that throws
  \<open>Unknown segment\<close> comes after that call and is never reached with \<open>null\<close>.\<close>

theorem erase_outside_not_UnknownSegment:
  "findSegment 100 smallSegments = None
   \<and> erase okDevice (smallDriver None) 100 4 [] = Some (Inl (AddressOutsideOfMemoryMap 100), [])
   \<and> AddressOutsideOfMemoryMap 100 \<noteq> UnknownSegment"
  by (simp add: erase_def getSegment_def getSectorStart_def smallDriver_def smallSegments_def)

text \<open>C9, amended. For every start address that lies in no segment of the loaded memory
  map, \<open>erase(startAddr, length)\<close> fails with the address-outside-of-memory-map error for
  \<open>startAddr\<close>, and the events are unchanged: no device command is issued.\<close>

theorem erase_outside_memory_map:
  "memoryInfo d = Some mi \<Longrightarrow> findSegment startAddr (segments mi) = None
   \<Longrightarrow> erase b d startAddr len tr = Some (Inl (AddressOutsideOfMemoryMap startAddr), tr)"
  by (rule erase_outside)

text \<open>Witness for C9: the address 8 lies below the small map.\<close>

theorem erase_outside_memory_map_witness:
  "erase okDevice (smallDriver None) 8 16 [] = Some (Inl (AddressOutsideOfMemoryMap 8), [])"
proof -
  have mi: "memoryInfo (smallDriver None) = Some \<lparr>name = ''Flash'', segments = smallSegments\<rparr>"
    by (simp add: smallDriver_def)
  have out: "findSegment 8 (segments \<lparr>name = ''Flash'', segments = smallSegments\<rparr>) = None"
    by (simp add: smallSegments_def)
  from erase_outside_memory_map [OF mi out] show ?thesis .
qed

lemma erase_zero_length:
  assumes "memoryInfo d = Some mi" and "findSegment (startAddr - 1) (segments mi) = None"
  shows "\<exists>x. erase b d startAddr 0 tr = Some (Inl (AddressOutsideOfMemoryMap x), tr)"
proof (cases "findSegment startAddr (segments mi)")
  case None
  with assms show ?thesis by (simp add: erase_outside)
next
  case (Some s)
  with assms show ?thesis
    by (simp add: erase_def getSegment_def getSectorStart_def getSectorEnd_def)
qed

lemma first_byte_predecessor:
  assumes "sortedNonOverlapping (s # rest)" and "seg_start s < seg_end s"
  shows "findSegment (seg_start s - 1) (s # rest) = None"
  using assms by (fastforce simp: findSegment_None sortedNonOverlapping_def)

text \<open>C10. With a loaded memory map, whenever \<open>startAddr - 1\<close> lies outside every segment,
  \<open>erase(startAddr, 0)\<close> throws the address-outside-of-memory-map error (the range end is
  computed from \<open>startAddr + 0 - 1\<close>) without any event; so does \<open>do_write\<close> of an empty
  image whose start address resolves to such a \<open>startAddr\<close>. The first byte of the first
  segment of a sorted, non-overlapping map is such an address.\<close>

theorem erase_empty_range_throws:
  assumes "memoryInfo d = Some mi" and "findSegment (startAddr - 1) (segments mi) = None"
  shows "(\<exists>x. erase b d startAddr 0 tr = Some (Inl (AddressOutsideOfMemoryMap x), tr))
         \<and> (\<forall>tr1. resolveStartAddress d mi (tr @ [LogInfo ErasingMemory]) = Inr (startAddr, tr1) \<longrightarrow>
              (\<exists>x. do_write b d xfer_size [] tr = Some (Inl (AddressOutsideOfMemoryMap x), tr1)))
         \<and> (\<forall>s rest. segments mi = s # rest \<and> sortedNonOverlapping (segments mi)
                \<and> seg_start s < seg_end s \<and> startAddr = seg_start s \<longrightarrow>
              findSegment (startAddr - 1) (segments mi) = None)"
proof (intro conjI allI impI)
  show "\<exists>x. erase b d startAddr 0 tr = Some (Inl (AddressOutsideOfMemoryMap x), tr)"
    using assms by (rule erase_zero_length)
next
  fix tr1
  assume r: "resolveStartAddress d mi (tr @ [LogInfo ErasingMemory]) = Inr (startAddr, tr1)"
  from assms obtain x where "erase b d startAddr 0 tr1 = Some (Inl (AddressOutsideOfMemoryMap x), tr1)"
    using erase_zero_length by blast
  with assms(1) r
  show "\<exists>x. do_write b d xfer_size [] tr = Some (Inl (AddressOutsideOfMemoryMap x), tr1)"
    by (simp add: do_write_def writeFrom_def)
next
  fix s rest
  assume "segments mi = s # rest \<and> sortedNonOverlapping (segments mi)
                \<and> seg_start s < seg_end s \<and> startAddr = seg_start s"
  then have e: "segments mi = s # rest" "startAddr = seg_start s"
    and "sortedNonOverlapping (s # rest)" "seg_start s < seg_end s"
    by auto
  then have "findSegment (seg_start s - 1) (s # rest) = None"
    by (intro first_byte_predecessor)
  then show "findSegment (startAddr - 1) (segments mi) = None"
    unfolding e .
qed

text \<open>Witness for C10: the small map starts at 16, and 15 is outside of it.\<close>

theorem erase_empty_range_throws_witness:
  "erase okDevice (smallDriver None) 16 0 [] = Some (Inl (AddressOutsideOfMemoryMap 15), [])
   \<and> do_write okDevice (smallDriver None) 4 [] []
       = Some (Inl (AddressOutsideOfMemoryMap 15),
               [LogInfo ErasingMemory, LogWarning (InferredStartAddress 16)])"
proof -
  let ?mi = "\<lparr>name = ''Flash'', segments = smallSegments\<rparr>"
  have mi: "memoryInfo (smallDriver None) = Some ?mi"
    by (simp add: smallDriver_def)
  have out: "findSegment (16 - 1) (segments ?mi) = None"
    by (simp add: smallSegments_def)
  have res: "resolveStartAddress (smallDriver None) ?mi ([] @ [LogInfo ErasingMemory])
             = Inr (16, [LogInfo ErasingMemory, LogWarning (InferredStartAddress 16)])"
    by (simp add: resolveStartAddress_def smallDriver_def smallSegments_def)
  from erase_empty_range_throws [OF mi out, of okDevice "[]" 4] res
  show ?thesis
    by (auto simp add: erase_def getSegment_def getSectorStart_def getSectorEnd_def smallDriver_def
        smallSegments_def do_write_def writeFrom_def)
qed

subsection \<open>The start address of a write\<close>

text \<open>C7, as stated, fails: with the override 100, which lies in no segment, the error is
  logged and \<open>do_write\<close> goes on to \<open>erase\<close>, but \<open>erase\<close> throws at once; nothing is
  erased and nothing is written at that address.\<close>

theorem do_write_unmapped_start_address:
  "startAddress (smallDriver (Some 100)) = Some 100
   \<and> findSegment 100 smallSegments = None
   \<and> do_write okDevice (smallDriver (Some 100)) 4 [1, 2, 3] []
       = Some (Inl (AddressOutsideOfMemoryMap 100),
               [LogInfo ErasingMemory, LogError (StartOutsideMemoryMap 100)])"
  by (simp add: do_write_def resolveStartAddress_def writeFrom_def erase_def getSegment_def
      getSectorStart_def smallDriver_def smallSegments_def)

text \<open>C7, amended. With a loaded memory map \<open>do_write\<close> resolves its start address so:
  an override inside a segment is used as it is (the erase, the chunks and the
  manifestation of \<open>writeFrom\<close> start there); for an override in no segment the error is
  logged and the \<open>erase\<close> that follows throws the address-outside-of-memory-map error
  before any device command; without an override the start of the first segment, when it
  is not 0, is used and the warning is logged; without an override and without segments
  \<open>do_write\<close> throws \<open>startAddress not found\<close>.\<close>

theorem do_write_start_address:
  assumes "memoryInfo d = Some mi"
  shows "(\<forall>a s. startAddress d = Some a \<and> findSegment a (segments mi) = Some s \<longrightarrow>
            do_write b d xfer_size data tr
              = writeFrom b d xfer_size data a (tr @ [LogInfo ErasingMemory]))
       \<and> (\<forall>a. startAddress d = Some a \<and> findSegment a (segments mi) = None \<longrightarrow>
            do_write b d xfer_size data tr
              = Some (Inl (AddressOutsideOfMemoryMap a),
                      tr @ [LogInfo ErasingMemory, LogError (StartOutsideMemoryMap a)]))
       \<and> (\<forall>s rest. startAddress d = None \<and> segments mi = s # rest \<and> seg_start s \<noteq> 0 \<longrightarrow>
            do_write b d xfer_size data tr
              = writeFrom b d xfer_size data (seg_start s)
                  (tr @ [LogInfo ErasingMemory, LogWarning (InferredStartAddress (seg_start s))]))
       \<and> (startAddress d = None \<and> segments mi = [] \<longrightarrow>
            do_write b d xfer_size data tr
              = Some (Inl StartAddressNotFound, tr @ [LogInfo ErasingMemory]))"
  using assms
  by (auto simp: do_write_def resolveStartAddress_def getSegment_def writeFrom_def erase_outside)

text \<open>Witness for C7: the small map with the overrides 8 and 40, and without an override.\<close>

theorem do_write_start_address_witness:
  "do_write okDevice (smallDriver (Some 8)) 4 [1, 2, 3] []
     = Some (Inl (AddressOutsideOfMemoryMap 8),
             [LogInfo ErasingMemory, LogError (StartOutsideMemoryMap 8)])
   \<and> do_write okDevice (smallDriver (Some 40)) 4 [1, 2, 3] []
     = writeFrom okDevice (smallDriver (Some 40)) 4 [1, 2, 3] 40 [LogInfo ErasingMemory]
   \<and> do_write okDevice (smallDriver None) 4 [1, 2, 3] []
     = writeFrom okDevice (smallDriver None) 4 [1, 2, 3] 16
         [LogInfo ErasingMemory, LogWarning (InferredStartAddress 16)]"
proof -
  let ?mi = "\<lparr>name = ''Flash'', segments = smallSegments\<rparr>"
  have mi: "\<And>a. memoryInfo (smallDriver a) = Some ?mi"
    by (simp add: smallDriver_def)
  have ov: "\<And>a. startAddress (smallDriver a) = a"
    by (simp add: smallDriver_def)
  have out: "findSegment 8 (segments ?mi) = None"
    and ins: "findSegment 40 (segments ?mi) = Some (smallSegments ! 1)"
    and fst: "segments ?mi = (smallSegments ! 0) # [smallSegments ! 1]"
             "seg_start (smallSegments ! 0) = 16"
    by (simp_all add: smallSegments_def)
  note w = do_write_start_address [OF mi, of _ okDevice 4 "[1, 2, 3]" "[]"]
  have "do_write okDevice (smallDriver (Some 8)) 4 [1, 2, 3] []
     = Some (Inl (AddressOutsideOfMemoryMap 8),
             [] @ [LogInfo ErasingMemory, LogError (StartOutsideMemoryMap 8)])"
    using ov out by (intro w [THEN conjunct2, THEN conjunct1, rule_format]) simp
  moreover have "do_write okDevice (smallDriver (Some 40)) 4 [1, 2, 3] []
     = writeFrom okDevice (smallDriver (Some 40)) 4 [1, 2, 3] 40 ([] @ [LogInfo ErasingMemory])"
    using ov ins by (intro w [THEN conjunct1, rule_format]) simp
  moreover have "do_write okDevice (smallDriver None) 4 [1, 2, 3] []
     = writeFrom okDevice (smallDriver None) 4 [1, 2, 3] (seg_start (smallSegments ! 0))
         ([] @ [LogInfo ErasingMemory,
                LogWarning (InferredStartAddress (seg_start (smallSegments ! 0)))])"
    using ov fst
    by (intro w [THEN conjunct2, THEN conjunct2, THEN conjunct1, rule_format]) simp
  ultimately show ?thesis using fst(2) by simp
qed

subsection \<open>The erase loop across a gap of the memory map\<close>

lemma eraseLoop_stuck:
  assumes "0 < endAddr" and "getSegment d 0 = Inr None"
  shows "eraseLoop b d endAddr bytesToErase None 0 bytesErased tr = None"
proof (rule ccontr)
  assume "eraseLoop b d endAddr bytesToErase None 0 bytesErased tr \<noteq> None"
  then obtain y where y: "eraseLoop b d endAddr bytesToErase None 0 bytesErased tr = Some y"
    by auto
  have "\<not> (0 < endAddr \<and> getSegment d 0 = Inr None \<and> (None :: DFUseMemorySegment option) = None \<and> (0::int) = 0)"
    by (rule eraseLoop.raw_induct
        [where P = "\<lambda>b d e t sg a be tr y. \<not> (0 < e \<and> getSegment d 0 = Inr None \<and> sg = None \<and> a = 0)",
         OF _ y])
      (fastforce split: if_splits)
  with assms show False by simp
qed

text \<open>C3 fails on the code. The map has two erasable segments, \<open>[16, 32)\<close> and
  \<open>[48, 64)\<close>, with a gap between them; the range \<open>[16, 64)\<close> starts and ends inside
  segments. After the first sector the loop finds no segment at 32, takes
  \<open>segment?.end ?? 0\<close> as the next address and stays at address 0 for ever: \<open>erase\<close>
  never returns.\<close>

theorem erase_across_gap_diverges:
  "sortedNonOverlapping gapSegments
   \<and> 0 < sectorSize (gapSegments ! 0) \<and> 0 < sectorSize (gapSegments ! 1)
   \<and> findSegment 16 gapSegments \<noteq> None \<and> findSegment (16 + 48 - 1) gapSegments \<noteq> None
   \<and> erase okDevice gapDriver 16 48 [] = None"
proof -
  have g: "getSegment gapDriver 0 = Inr None"
    by (simp add: getSegment_def gapDriver_def gapSegments_def)
  have "erase okDevice gapDriver 16 48 []
        = eraseLoop okDevice gapDriver 64 48
            (Some \<lparr>seg_start = 16, seg_end = 32, sectorSize = 16,
                   readable = True, erasable = True, writable = True\<rparr>) 16 0 [LogProgress 0 48]"
    by (simp add: erase_def getSegment_def getSectorStart_def getSectorEnd_def sectorStartOf_def
        sectorEndOf_def gapDriver_def gapSegments_def)
  also have "\<dots> = eraseLoop okDevice gapDriver 64 48
            (Some \<lparr>seg_start = 16, seg_end = 32, sectorSize = 16,
                   readable = True, erasable = True, writable = True\<rparr>) 32 16
            [LogProgress 0 48, Write [65, 16, 0, 0, 0] 0, Poll PollUntilNotBusy, LogProgress 16 48]"
    by (subst eraseLoop.simps)
      (simp add: sectorStartOf_def dfuseCommand_def dfusePayload_len4 okDevice_def ERASE_SECTOR_def
        uint32LE_def toUint32_def toUint8_def)
  also have "\<dots> = eraseLoop okDevice gapDriver 64 48 None 0 (- 16)
            [LogProgress 0 48, Write [65, 16, 0, 0, 0] 0, Poll PollUntilNotBusy, LogProgress 16 48,
             LogProgress (- 16) 48]"
    by (subst eraseLoop.simps) (simp add: getSegment_def gapDriver_def gapSegments_def)
  also have "\<dots> = None"
    using g by (intro eraseLoop_stuck) simp_all
  finally have "erase okDevice gapDriver 16 48 [] = None" .
  then show ?thesis
    by (simp add: sortedNonOverlapping_def gapSegments_def)
qed

subsection \<open>The chunks of a write\<close>

lemma writesOf_append: "writesOf (xs @ ys) = writesOf xs @ writesOf ys"
  by (induction xs rule: writesOf.induct) simp_all

lemma okDevice_ok: "reportsAllWritten okDevice \<and> pollsOK okDevice"
  by (simp add: reportsAllWritten_def pollsOK_def okDevice_def)

lemma dfuseCommand_ok:
  assumes "reportsAllWritten b" and "pollsOK b"
  shows "dfuseCommand b c p 4 tr
         = (Inr (), tr @ [Write (toUint8 (Num c) # uint32LE p) 0, Poll PollUntilNotBusy])"
proof -
  from assms(2) obtain st where
    "base_poll b (tr @ [Write (toUint8 (Num c) # uint32LE p) 0]) PollUntilNotBusy = Inr st"
    "status st = STATUS_OK b"
    unfolding pollsOK_def by blast
  with assms(1) show ?thesis
    by (simp add: dfuseCommand_def dfusePayload_len4 reportsAllWritten_def)
qed

lemma manifest_ok:
  assumes "reportsAllWritten b" and "pollsOK b"
  shows "manifest b a tr
         = (Inr (), tr @ [Write (toUint8 (Num SET_ADDRESS) # uint32LE (Num a)) 0,
                          Poll PollUntilNotBusy, Write [] 0, Poll PollUntilManifest])"
proof -
  let ?tr1 = "tr @ [Write (toUint8 (Num SET_ADDRESS) # uint32LE (Num a)) 0, Poll PollUntilNotBusy]"
  from assms(2) obtain st where "base_poll b (?tr1 @ [Write [] 0]) PollUntilManifest = Inr st"
    unfolding pollsOK_def by blast
  with assms(1) show ?thesis
    by (simp add: manifest_def dfuseCommand_ok [OF assms] reportsAllWritten_def)
qed

lemma take_drop_nth:
  assumes "i \<le> length xs"
  shows "take m (drop i xs) = map ((!) xs) [i ..< min (i + m) (length xs)]"
proof (rule nth_equalityI)
  show "length (take m (drop i xs)) = length (map ((!) xs) [i ..< min (i + m) (length xs)])"
    using assms by auto
next
  fix k
  assume "k < length (take m (drop i xs))"
  then have "k < m" and "i + k < length xs" by auto
  then show "take m (drop i xs) ! k = map ((!) xs) [i ..< min (i + m) (length xs)] ! k"
    by simp
qed

lemma slice_chunk:
  assumes "0 \<le> sent" and "sent < int (length data)" and "0 < C"
  shows "slice data sent (sent + min (int (length data) - sent) C)
         = map ((!) data) [nat sent ..< min (nat sent + nat C) (length data)]"
proof -
  have "slice data sent (sent + min (int (length data) - sent) C)
        = take (nat (min (int (length data) - sent) C)) (drop (nat sent) data)"
    using assms by (simp add: slice_def Let_def min_def max_def)
  also have "\<dots> = map ((!) data)
      [nat sent ..< min (nat sent + nat (min (int (length data) - sent) C)) (length data)]"
    using assms by (intro take_drop_nth) simp
  also have "min (nat sent + nat (min (int (length data) - sent) C)) (length data)
             = min (nat sent + nat C) (length data)"
    using assms by (simp add: min_def) linarith
  finally show ?thesis .
qed

lemma ceil_div_less:
  fixes c j n :: nat
  assumes "0 < c"
  shows "j < (n + c - 1) div c \<longleftrightarrow> j * c < n"
proof -
  have "j < (n + c - 1) div c \<longleftrightarrow> Suc j \<le> (n + c - 1) div c" by auto
  also have "\<dots> \<longleftrightarrow> Suc j * c \<le> n + c - 1"
    using assms by (simp add: less_eq_div_iff_mult_less_eq)
  also have "\<dots> \<longleftrightarrow> j * c < n" using assms by auto
  finally show ?thesis .
qed

lemma writeLoop_step:
  assumes ok: "reportsAllWritten b" "pollsOK b"
    and "0 \<le> sent" and "sent < int (length data)" and "0 < C"
  shows "writeLoop b C data (int (length data)) address sent tr
         = writeLoop b C data (int (length data))
             (address + min (int (length data) - sent) C)
             (min (sent + C) (int (length data)))
             (tr @ [Write (toUint8 (Num SET_ADDRESS) # uint32LE (Num address)) 0,
                    Poll PollUntilNotBusy,
                    Write (map ((!) data) [nat sent ..< min (nat sent + nat C) (length data)]) 2,
                    Poll PollUntilIdle,
                    LogProgress (min (sent + C) (int (length data))) (int (length data))])"
proof -
  let ?chunk = "map ((!) data) [nat sent ..< min (nat sent + nat C) (length data)]"
  let ?tr1 = "tr @ [Write (toUint8 (Num SET_ADDRESS) # uint32LE (Num address)) 0,
                    Poll PollUntilNotBusy]"
  have sl: "slice data sent (sent + min (int (length data) - sent) C) = ?chunk"
    using assms(3-5) by (rule slice_chunk)
  have len: "sent + int (length ?chunk) = min (sent + C) (int (length data))"
    using assms(3-5) by (simp add: min_def) linarith
  from ok(2) obtain st where st: "base_poll b (?tr1 @ [Write ?chunk 2]) PollUntilIdle = Inr st"
    "status st = STATUS_OK b"
    unfolding pollsOK_def by blast
  have wr: "base_write b ?tr1 ?chunk 2 = Inr (int (length ?chunk))"
    using ok(1) unfolding reportsAllWritten_def by blast
  show ?thesis
    apply (subst writeLoop.simps)
    using assms(4) st
    apply (simp only: dfuseCommand_ok [OF ok] sl wr if_True prod.case sum.case)
    apply (simp only: len)
    apply simp
    done
qed

lemma writeLoop_ok:
  assumes ok: "reportsAllWritten b" "pollsOK b" and C: "0 < C"
  shows "j \<le> (length data + nat C - 1) div nat C \<Longrightarrow> sent = min (int j * C) (int (length data))
    \<Longrightarrow> (j < (length data + nat C - 1) div nat C \<longrightarrow> address = startAddr + int j * C)
    \<Longrightarrow> \<exists>rest. writeLoop b C data (int (length data)) address sent tr
                  = Some (Inr (int (length data)), tr @ rest)
              \<and> writesOf rest
                  = concat (map (\<lambda>i. [commandWrite SET_ADDRESS (startAddr + int i * C),
                       (map ((!) data) [i * nat C ..< min ((i + 1) * nat C) (length data)], 2)])
                     [j ..< (length data + nat C - 1) div nat C])"
proof (induction "(length data + nat C - 1) div nat C - j" arbitrary: j sent address tr)
  case 0
  then have jk: "j = (length data + nat C - 1) div nat C" by simp
  have "\<not> j * nat C < length data"
    using ceil_div_less [of "nat C" j "length data"] C jk by simp
  then have "int (length data) \<le> int j * C"
    using C by (metis int_nat_eq linorder_not_less of_nat_less_iff of_nat_mult order_less_imp_le)
  with 0 have "sent = int (length data)" by simp
  then show ?case using jk by (subst writeLoop.simps) simp
next
  case (Suc m)
  let ?k = "(length data + nat C - 1) div nat C"
  let ?N = "int (length data)"
  from Suc have jk: "j < ?k" by linarith
  then have lt: "j * nat C < length data"
    using ceil_div_less [of "nat C" j "length data"] C by simp
  have ic: "int (nat C) = C" using C by simp
  from lt have "int (j * nat C) < ?N" by (simp only: of_nat_less_iff)
  then have ltN: "int j * C < ?N" by (simp only: of_nat_mult ic)
  with Suc.prems have sent: "sent = int j * C" by simp
  have nsent: "nat sent = j * nat C"
    unfolding sent using C by (simp add: nat_mult_distrib)
  from Suc.prems jk have addr: "address = startAddr + int j * C" by simp
  have sent0: "0 \<le> sent" unfolding sent using C by simp
  let ?tr1 = "tr @ [Write (toUint8 (Num SET_ADDRESS) # uint32LE (Num address)) 0,
                    Poll PollUntilNotBusy,
                    Write (map ((!) data) [nat sent ..< min (nat sent + nat C) (length data)]) 2,
                    Poll PollUntilIdle,
                    LogProgress (min (sent + C) ?N) ?N]"
  have step: "writeLoop b C data ?N address sent tr
        = writeLoop b C data ?N (address + min (?N - sent) C) (min (sent + C) ?N) ?tr1"
    using ok sent0 ltN C unfolding sent [symmetric] by (intro writeLoop_step) simp_all
  have "\<exists>rest. writeLoop b C data ?N (address + min (?N - sent) C) (min (sent + C) ?N) ?tr1
                  = Some (Inr ?N, ?tr1 @ rest)
              \<and> writesOf rest
                  = concat (map (\<lambda>i. [commandWrite SET_ADDRESS (startAddr + int i * C),
                       (map ((!) data) [i * nat C ..< min ((i + 1) * nat C) (length data)], 2)])
                     [Suc j ..< ?k])"
  proof (rule Suc.hyps(1))
    show "m = ?k - Suc j" using Suc.hyps(2) by simp
    show "Suc j \<le> ?k" using jk by simp
    show "min (sent + C) ?N = min (int (Suc j) * C) ?N"
      unfolding sent by (simp add: algebra_simps)
    show "Suc j < ?k \<longrightarrow> address + min (?N - sent) C = startAddr + int (Suc j) * C"
    proof
      assume "Suc j < ?k"
      then have "Suc j * nat C < length data"
        using ceil_div_less [of "nat C" "Suc j" "length data"] C by simp
      then have "int (Suc j * nat C) < ?N" by (simp only: of_nat_less_iff)
      then have "int (Suc j) * C < ?N" by (simp only: of_nat_mult ic)
      then have "min (?N - sent) C = C" unfolding sent by (simp add: algebra_simps)
      then show "address + min (?N - sent) C = startAddr + int (Suc j) * C"
        unfolding addr by (simp add: algebra_simps)
    qed
  qed
  then obtain rest where rest:
    "writeLoop b C data ?N (address + min (?N - sent) C) (min (sent + C) ?N) ?tr1
       = Some (Inr ?N, ?tr1 @ rest)"
    "writesOf rest
       = concat (map (\<lambda>i. [commandWrite SET_ADDRESS (startAddr + int i * C),
                       (map ((!) data) [i * nat C ..< min ((i + 1) * nat C) (length data)], 2)])
                     [Suc j ..< ?k])"
    by blast
  let ?new = "[Write (toUint8 (Num SET_ADDRESS) # uint32LE (Num address)) 0,
               Poll PollUntilNotBusy,
               Write (map ((!) data) [nat sent ..< min (nat sent + nat C) (length data)]) 2,
               Poll PollUntilIdle,
               LogProgress (min (sent + C) ?N) ?N]"
  have "writeLoop b C data ?N address sent tr = Some (Inr ?N, tr @ (?new @ rest))"
    using step rest(1) by simp
  moreover have "writesOf (?new @ rest)
      = concat (map (\<lambda>i. [commandWrite SET_ADDRESS (startAddr + int i * C),
                       (map ((!) data) [i * nat C ..< min ((i + 1) * nat C) (length data)], 2)])
                     [j ..< ?k])"
    using jk rest(2)
    by (simp add: upt_conv_Cons commandWrite_def addr nsent algebra_simps)
  ultimately show ?case by blast
qed

lemma do_write_after_erase:
  assumes "reportsAllWritten b" and "pollsOK b" and "0 < xfer_size"
    and "memoryInfo d = Some mi"
    and "resolveStartAddress d mi (tr @ [LogInfo ErasingMemory]) = Inr (startAddr, tr1)"
    and "erase b d startAddr (int (length data)) tr1 = Some (Inr (), tr2)"
  shows "\<exists>rest. do_write b d xfer_size data tr = Some (Inr (), tr2 @ rest)
            \<and> writesOf rest = expectedWrites startAddr xfer_size data"
proof -
  let ?k = "(length data + nat xfer_size - 1) div nat xfer_size"
  have "\<exists>rest. writeLoop b xfer_size data (int (length data)) startAddr 0
                  (tr2 @ [LogInfo CopyingData])
                = Some (Inr (int (length data)), (tr2 @ [LogInfo CopyingData]) @ rest)
              \<and> writesOf rest
                  = concat (map (\<lambda>i. [commandWrite SET_ADDRESS (startAddr + int i * xfer_size),
                       (map ((!) data)
                          [i * nat xfer_size ..< min ((i + 1) * nat xfer_size) (length data)], 2)])
                     [0 ..< ?k])"
    using assms(1-3) by (intro writeLoop_ok) simp_all
  then obtain rest where rest:
    "writeLoop b xfer_size data (int (length data)) startAddr 0 (tr2 @ [LogInfo CopyingData])
       = Some (Inr (int (length data)), (tr2 @ [LogInfo CopyingData]) @ rest)"
    "writesOf rest
       = concat (map (\<lambda>i. [commandWrite SET_ADDRESS (startAddr + int i * xfer_size),
                       (map ((!) data)
                          [i * nat xfer_size ..< min ((i + 1) * nat xfer_size) (length data)], 2)])
                     [0 ..< ?k])"
    by blast
  let ?rest = "[LogInfo CopyingData] @ rest
               @ [LogInfo (Wrote (int (length data))), LogInfo Manifesting,
                  Write (toUint8 (Num SET_ADDRESS) # uint32LE (Num startAddr)) 0,
                  Poll PollUntilNotBusy, Write [] 0, Poll PollUntilManifest]"
  have "do_write b d xfer_size data tr = Some (Inr (), tr2 @ ?rest)"
    using assms(4-6) rest(1)
    by (simp add: do_write_def writeFrom_def manifest_ok [OF assms(1,2)])
  moreover have "writesOf ?rest = expectedWrites startAddr xfer_size data"
    using rest(2) by (simp add: writesOf_append expectedWrites_def commandWrite_def)
  ultimately show ?thesis by blast
qed

subsection \<open>The erase loop over a span without a gap\<close>

lemma segment_order:
  "sortedNonOverlapping segs \<Longrightarrow> s \<in> set segs \<Longrightarrow> t \<in> set segs
   \<Longrightarrow> s = t \<or> seg_end s \<le> seg_start t \<or> seg_end t \<le> seg_start s"
  unfolding sortedNonOverlapping_def by (induction segs) auto

lemma segment_unique:
  assumes "sortedNonOverlapping segs" and "s \<in> set segs" and "t \<in> set segs"
    and "seg_start s \<le> a" and "a < seg_end s" and "seg_start t \<le> a" and "a < seg_end t"
  shows "s = t"
  using segment_order [OF assms(1-3)] assms(4-7) by auto

lemma aligned_step:
  fixes a x st ss :: int
  assumes "0 < ss" and "ss dvd (x - st)" and "ss dvd (a - st)" and "a < x"
  shows "a + ss \<le> x"
proof -
  have "ss dvd ((x - st) - (a - st))" using assms(2,3) by (rule dvd_diff)
  then have "ss dvd (x - a)" by simp
  moreover have "0 < x - a" using assms(4) by simp
  ultimately have "ss \<le> x - a" by (rule zdvd_imp_le)
  then show ?thesis by simp
qed

lemma between_not_aligned:
  fixes a c st ss :: int
  assumes "ss dvd (a - st)" and "a < c" and "c < a + ss"
  shows "\<not> ss dvd (c - st)"
proof
  assume "ss dvd (c - st)"
  then have "ss dvd ((c - st) - (a - st))" using assms(1) by (rule dvd_diff)
  then have "ss dvd (c - a)" by simp
  moreover have "0 < c - a" "c - a < ss" using assms(2,3) by simp_all
  ultimately show False using zdvd_not_zless by blast
qed

lemma sectorStartOf_aligned:
  assumes "0 < sectorSize s" and "sectorSize s dvd (a - seg_start s)"
  shows "sectorStartOf a s = Num a"
proof -
  from assms(2) have "(a - seg_start s) mod sectorSize s = 0" by (simp add: mod_eq_0_iff_dvd)
  with sectorStart_arith [OF assms(1), of "seg_start s" a] assms(1)
  show ?thesis by (simp add: sectorStartOf_def)
qed

lemma filter_upto_skip:
  fixes lo mid hi :: int
  assumes "lo \<le> mid" and "\<forall>a. lo \<le> a \<and> a < mid \<and> a < hi \<longrightarrow> \<not> P a"
  shows "filter P [lo .. hi - 1] = filter P [mid .. hi - 1]"
proof (cases "mid \<le> hi")
  case True
  have "[lo .. hi - 1] = [lo .. mid - 1] @ [mid .. hi - 1]"
    using assms(1) True upto_split2 [of lo "mid - 1" "hi - 1"]
    by (cases "lo = mid") (auto simp: upto_split2)
  moreover have "filter P [lo .. mid - 1] = []"
    using assms(2) True by (auto simp: filter_empty_conv)
  ultimately show ?thesis by simp
next
  case False
  then have "[mid .. hi - 1] = []" by simp
  moreover have "filter P [lo .. hi - 1] = []"
    using assms(2) False by (auto simp: filter_empty_conv)
  ultimately show ?thesis by simp
qed

lemma eraseLoop_done:
  "\<not> addr < endAddr \<Longrightarrow> eraseLoop b d endAddr bytesToErase sg addr be tr = Some (Inr (), tr)"
  by (subst eraseLoop.simps) simp

lemma eraseLoop_skip:
  assumes "addr < endAddr"
    and "(if seg_end sg \<le> addr then getSegment d addr else Inr (Some sg)) = Inr (Some s)"
    and "\<not> erasable s"
  shows "eraseLoop b d endAddr bytesToErase (Some sg) addr be tr
         = eraseLoop b d endAddr bytesToErase (Some s) (seg_end s) (min (be + seg_end s - addr) bytesToErase)
             (tr @ [LogProgress (min (be + seg_end s - addr) bytesToErase) bytesToErase])"
  by (subst eraseLoop.simps) (simp add: assms)

lemma eraseLoop_erase:
  assumes "reportsAllWritten b" and "pollsOK b" and "addr < endAddr"
    and "(if seg_end sg \<le> addr then getSegment d addr else Inr (Some sg)) = Inr (Some s)"
    and "erasable s" and "sectorStartOf addr s = Num sa"
  shows "eraseLoop b d endAddr bytesToErase (Some sg) addr be tr
         = eraseLoop b d endAddr bytesToErase (Some s) (sa + sectorSize s) (be + sectorSize s)
             (tr @ [Write (fst (commandWrite ERASE_SECTOR sa)) 0, Poll PollUntilNotBusy,
                    LogProgress (be + sectorSize s) bytesToErase])"
  by (subst eraseLoop.simps)
    (simp add: assms(3-6) dfuseCommand_ok [OF assms(1,2)] commandWrite_def)

lemma no_sector_start_in_segment:
  assumes so: "sortedNonOverlapping segs" and s: "s \<in> set segs"
    and a: "seg_start s \<le> a" "a < seg_end s"
    and no: "\<not> erasable s \<or> \<not> sectorSize s dvd (a - seg_start s)"
  shows "\<not> isErasableSectorStart segs a"
proof
  assume "isErasableSectorStart segs a"
  then obtain t where t: "t \<in> set segs" "erasable t" "seg_start t \<le> a" "a < seg_end t"
    "sectorSize t dvd (a - seg_start t)"
    unfolding isErasableSectorStart_def by blast
  have "s = t" using so s t(1) a t(3,4) by (rule segment_unique)
  with no t show False by simp
qed

lemma next_segment_aligned:
  assumes so: "sortedNonOverlapping segs" and s: "s \<in> set segs"
    and a: "seg_start s \<le> a" "a < seg_end s"
  shows "alignedIn segs (seg_end s)"
  unfolding alignedIn_def
proof (intro allI impI)
  fix t
  assume "findSegment (seg_end s) segs = Some t"
  then have t: "t \<in> set segs" "seg_start t \<le> seg_end s" "seg_end s < seg_end t"
    by (simp_all add: findSegment_Some)
  from segment_order [OF so s t(1)] a t(2,3) have "seg_start t = seg_end s" by auto
  then show "sectorSize t dvd (seg_end s - seg_start t)" by simp
qed

lemma eraseLoop_span:
  assumes mi: "memoryInfo d = Some mi"
    and so: "sortedNonOverlapping (segments mi)"
    and ti: "sectorsTile (segments mi)"
    and ok: "reportsAllWritten b" "pollsOK b"
    and en: "endAligned (segments mi) hi"
  shows "lo \<le> addr \<Longrightarrow> coveredFrom (segments mi) addr hi \<Longrightarrow> alignedIn (segments mi) addr
    \<Longrightarrow> seg_end sg \<le> addr \<or> findSegment addr (segments mi) = Some sg
    \<Longrightarrow> \<exists>rest. eraseLoop b d hi (hi - lo) (Some sg) addr (min addr hi - lo) tr
                  = Some (Inr (), tr @ rest)
           \<and> writesOf rest
                  = map (commandWrite ERASE_SECTOR) (erasableSectorStarts (segments mi) addr hi)
           \<and> (if addr < hi then rest \<noteq> [] \<and> last rest = LogProgress (hi - lo) (hi - lo)
               else rest = [])"
proof (induction "nat (hi - addr)" arbitrary: addr sg tr rule: less_induct)
  case less
  let ?segs = "segments mi"
  show ?case
  proof (cases "addr < hi")
    case False
    then have "eraseLoop b d hi (hi - lo) (Some sg) addr (min addr hi - lo) tr = Some (Inr (), tr @ [])"
      by (simp add: eraseLoop_done)
    moreover have "erasableSectorStarts ?segs addr hi = []"
      using False by (simp add: erasableSectorStarts_def)
    ultimately show ?thesis using False by (intro exI [of _ "[]"]) simp
  next
    case True
    then have "addr \<in> set [addr .. hi - 1]" by simp
    with less.prems(2) obtain s where s: "findSegment addr ?segs = Some s"
      unfolding coveredFrom_def by blast
    then have sIn: "s \<in> set ?segs" and sLo: "seg_start s \<le> addr" and sHi: "addr < seg_end s"
      by (simp_all add: findSegment_Some)
    have cur: "(if seg_end sg \<le> addr then getSegment d addr else Inr (Some sg)) = Inr (Some s)"
      using less.prems(4) mi s sHi by (auto simp: getSegment_def)
    from ti sIn have pos: "0 < sectorSize s" and tile: "sectorSize s dvd (seg_end s - seg_start s)"
      unfolding sectorsTile_def by auto
    have be: "min addr hi = addr" using True by simp
    show ?thesis
    proof (cases "erasable s")
      case False
      let ?be = "min (addr - lo + seg_end s - addr) (hi - lo)"
      let ?tr1 = "tr @ [LogProgress ?be (hi - lo)]"
      have be': "?be = min (seg_end s) hi - lo" by (simp add: min_def)
      have step: "eraseLoop b d hi (hi - lo) (Some sg) addr (min addr hi - lo) tr
                  = eraseLoop b d hi (hi - lo) (Some s) (seg_end s) (min (seg_end s) hi - lo) ?tr1"
        unfolding be be' [symmetric] using True cur False by (rule eraseLoop_skip)
      have "\<exists>rest. eraseLoop b d hi (hi - lo) (Some s) (seg_end s) (min (seg_end s) hi - lo) ?tr1
                  = Some (Inr (), ?tr1 @ rest)
           \<and> writesOf rest
                  = map (commandWrite ERASE_SECTOR) (erasableSectorStarts ?segs (seg_end s) hi)
           \<and> (if seg_end s < hi then rest \<noteq> [] \<and> last rest = LogProgress (hi - lo) (hi - lo)
               else rest = [])"
      proof (rule less.hyps)
        show "nat (hi - seg_end s) < nat (hi - addr)" using True sHi by simp
        show "lo \<le> seg_end s" using less.prems(1) sHi by simp
        show "coveredFrom ?segs (seg_end s) hi"
          using less.prems(2) sHi unfolding coveredFrom_def by auto
        show "alignedIn ?segs (seg_end s)" using so sIn sLo sHi by (rule next_segment_aligned)
        show "seg_end s \<le> seg_end s \<or> findSegment (seg_end s) ?segs = Some s" by simp
      qed
      then obtain rest where rest:
        "eraseLoop b d hi (hi - lo) (Some s) (seg_end s) (min (seg_end s) hi - lo) ?tr1
           = Some (Inr (), ?tr1 @ rest)"
        "writesOf rest
           = map (commandWrite ERASE_SECTOR) (erasableSectorStarts ?segs (seg_end s) hi)"
        "if seg_end s < hi then rest \<noteq> [] \<and> last rest = LogProgress (hi - lo) (hi - lo)
         else rest = []"
        by blast
      have skip: "erasableSectorStarts ?segs addr hi = erasableSectorStarts ?segs (seg_end s) hi"
        unfolding erasableSectorStarts_def
      proof (rule filter_upto_skip)
        show "addr \<le> seg_end s" using sHi by simp
        show "\<forall>a. addr \<le> a \<and> a < seg_end s \<and> a < hi \<longrightarrow> \<not> isErasableSectorStart ?segs a"
          using no_sector_start_in_segment [OF so sIn] sLo False by auto
      qed
      let ?rest = "LogProgress ?be (hi - lo) # rest"
      have "eraseLoop b d hi (hi - lo) (Some sg) addr (min addr hi - lo) tr
            = Some (Inr (), tr @ ?rest)"
        using step rest(1) by simp
      moreover have "writesOf ?rest
                     = map (commandWrite ERASE_SECTOR) (erasableSectorStarts ?segs addr hi)"
        using rest(2) skip by simp
      moreover have "?rest \<noteq> [] \<and> last ?rest = LogProgress (hi - lo) (hi - lo)"
        using rest(3) be' by (auto simp: min_def split: if_splits)
      ultimately show ?thesis using True by (intro exI [of _ ?rest]) simp
    next
      case er: True
      let ?ss = "sectorSize s"
      let ?a' = "addr + ?ss"
      from less.prems(3) s have al: "?ss dvd (addr - seg_start s)"
        unfolding alignedIn_def by simp
      have sa: "sectorStartOf addr s = Num addr" using pos al by (rule sectorStartOf_aligned)
      have tile': "?ss dvd (seg_end s - seg_start s)" by (rule tile)
      have le_end: "?a' \<le> seg_end s" using pos tile' al sHi by (rule aligned_step)
      have le_hi: "?a' \<le> hi"
      proof -
        from en obtain s1 where s1: "s1 \<in> set ?segs" "seg_start s1 < hi" "hi \<le> seg_end s1"
          "sectorSize s1 dvd (hi - seg_start s1)"
          unfolding endAligned_def by blast
        show ?thesis
        proof (cases "s = s1")
          case True
          with s1(4) have "?ss dvd (hi - seg_start s)" by simp
          with pos show ?thesis using al \<open>addr < hi\<close> by (rule aligned_step)
        next
          case False
          with segment_order [OF so sIn s1(1)]
          have "seg_end s \<le> seg_start s1 \<or> seg_end s1 \<le> seg_start s" by simp
          with s1(2,3) sLo \<open>addr < hi\<close> le_end show ?thesis by linarith
        qed
      qed
      let ?tr1 = "tr @ [Write (fst (commandWrite ERASE_SECTOR addr)) 0, Poll PollUntilNotBusy,
                        LogProgress (addr - lo + ?ss) (hi - lo)]"
      have be': "addr - lo + ?ss = min ?a' hi - lo" using le_hi by simp
      have step: "eraseLoop b d hi (hi - lo) (Some sg) addr (min addr hi - lo) tr
                  = eraseLoop b d hi (hi - lo) (Some s) ?a' (min ?a' hi - lo) ?tr1"
        unfolding be be' [symmetric] using ok True cur er sa by (rule eraseLoop_erase)
      have "\<exists>rest. eraseLoop b d hi (hi - lo) (Some s) ?a' (min ?a' hi - lo) ?tr1
                  = Some (Inr (), ?tr1 @ rest)
           \<and> writesOf rest
                  = map (commandWrite ERASE_SECTOR) (erasableSectorStarts ?segs ?a' hi)
           \<and> (if ?a' < hi then rest \<noteq> [] \<and> last rest = LogProgress (hi - lo) (hi - lo)
               else rest = [])"
      proof (rule less.hyps)
        show "nat (hi - ?a') < nat (hi - addr)" using True pos by simp
        show "lo \<le> ?a'" using less.prems(1) pos by simp
        show "coveredFrom ?segs ?a' hi"
          using less.prems(2) pos unfolding coveredFrom_def by auto
        show "alignedIn ?segs ?a'"
        proof (cases "?a' < seg_end s")
          case True
          have "findSegment ?a' ?segs = Some s"
            using so sIn _ True by (rule findSegment_unique) (use sLo pos in simp)
          moreover have "?a' - seg_start s = (addr - seg_start s) + ?ss" by simp
          then have "?ss dvd (?a' - seg_start s)"
            using al by (simp only: dvd_add_triv_right_iff)
          ultimately show ?thesis unfolding alignedIn_def by simp
        next
          case False
          with le_end have "?a' = seg_end s" by simp
          then show ?thesis using next_segment_aligned [OF so sIn sLo sHi] by simp
        qed
        show "seg_end s \<le> ?a' \<or> findSegment ?a' ?segs = Some s"
        proof (cases "?a' < seg_end s")
          case True
          have "findSegment ?a' ?segs = Some s"
            using so sIn _ True by (rule findSegment_unique) (use sLo pos in simp)
          then show ?thesis by simp
        next
          case False
          then show ?thesis by simp
        qed
      qed
      then obtain rest where rest:
        "eraseLoop b d hi (hi - lo) (Some s) ?a' (min ?a' hi - lo) ?tr1
           = Some (Inr (), ?tr1 @ rest)"
        "writesOf rest = map (commandWrite ERASE_SECTOR) (erasableSectorStarts ?segs ?a' hi)"
        "if ?a' < hi then rest \<noteq> [] \<and> last rest = LogProgress (hi - lo) (hi - lo)
         else rest = []"
        by blast
      have here: "isErasableSectorStart ?segs addr"
        unfolding isErasableSectorStart_def using sIn er sLo sHi al by blast
      have after: "filter (isErasableSectorStart ?segs) [addr + 1 .. hi - 1]
                   = filter (isErasableSectorStart ?segs) [?a' .. hi - 1]"
      proof (rule filter_upto_skip)
        show "addr + 1 \<le> ?a'" using pos by simp
        show "\<forall>a. addr + 1 \<le> a \<and> a < ?a' \<and> a < hi \<longrightarrow> \<not> isErasableSectorStart ?segs a"
        proof (intro allI impI)
          fix a
          assume a: "addr + 1 \<le> a \<and> a < ?a' \<and> a < hi"
          then have "\<not> ?ss dvd (a - seg_start s)"
            using between_not_aligned [OF al, of a] by simp
          then show "\<not> isErasableSectorStart ?segs a"
            using no_sector_start_in_segment [OF so sIn, of a] a sLo le_end by simp
        qed
      qed
      have cons: "erasableSectorStarts ?segs addr hi = addr # erasableSectorStarts ?segs ?a' hi"
        unfolding erasableSectorStarts_def
        using True here after by (subst upto_rec1) simp_all
      let ?rest = "[Write (fst (commandWrite ERASE_SECTOR addr)) 0, Poll PollUntilNotBusy,
                    LogProgress (addr - lo + ?ss) (hi - lo)] @ rest"
      have "eraseLoop b d hi (hi - lo) (Some sg) addr (min addr hi - lo) tr
            = Some (Inr (), tr @ ?rest)"
        using step rest(1) by simp
      moreover have "writesOf ?rest
                     = map (commandWrite ERASE_SECTOR) (erasableSectorStarts ?segs addr hi)"
        using rest(2) cons by (simp add: commandWrite_def)
      moreover have "?rest \<noteq> [] \<and> last ?rest = LogProgress (hi - lo) (hi - lo)"
        using rest(3) le_hi by (auto split: if_splits)
      ultimately show ?thesis using True by (intro exI [of _ ?rest]) simp
    qed
  qed
qed

text \<open>C2, as stated, fails. Two erasable segments \<open>[0, 6)\<close> and \<open>[6, 14)\<close> with sectors
  of 4 bytes are sorted, do not overlap and have a positive sector size, and the range
  \<open>[0, 14)\<close> starts and ends inside them. The sector-aligned span is \<open>[0, 14)\<close>, of 14
  bytes, and the last progress value reported is 16: each \<open>ERASE_SECTOR\<close> adds a whole
  sector size. And on the small map (a non-erasable segment followed by an erasable one
  of two sectors), with a device that answers the first \<open>ERASE_SECTOR\<close> with an error
  status, \<open>erase\<close> throws after one command, and the last progress value reported is 16
  of 48.\<close>

theorem erase_uneven_sectors_progress:
  "sortedNonOverlapping unevenSegments
   \<and> 0 < sectorSize (unevenSegments ! 0) \<and> 0 < sectorSize (unevenSegments ! 1)
   \<and> findSegment 0 unevenSegments \<noteq> None \<and> findSegment (0 + 14 - 1) unevenSegments \<noteq> None
   \<and> getSectorStart unevenDriver 0 None = Inr (Num 0)
   \<and> getSectorEnd unevenDriver (0 + 14 - 1) None = Inr (Num 14)
   \<and> erase okDevice unevenDriver 0 14 []
       = Some (Inr (),
           [LogProgress 0 14,
            Write [65, 0, 0, 0, 0] 0, Poll PollUntilNotBusy, LogProgress 4 14,
            Write [65, 4, 0, 0, 0] 0, Poll PollUntilNotBusy, LogProgress 8 14,
            Write [65, 6, 0, 0, 0] 0, Poll PollUntilNotBusy, LogProgress 12 14,
            Write [65, 10, 0, 0, 0] 0, Poll PollUntilNotBusy, LogProgress 16 14])
   \<and> erase failingDevice (smallDriver None) 16 48 []
       = Some (Inl (SpecialCommandFailed ERASE_SECTOR),
           [LogProgress 0 48, LogProgress 16 48,
            Write [65, 32, 0, 0, 0] 0, Poll PollUntilNotBusy])"
  by (simp add: sortedNonOverlapping_def erase_def getSegment_def getSectorStart_def
      getSectorEnd_def sectorStartOf_def sectorEndOf_def unevenDriver_def unevenSegments_def
      smallDriver_def smallSegments_def failingDevice_def
      eraseLoop.simps dfuseCommand_def dfusePayload_len4 okDevice_def ERASE_SECTOR_def
      uint32LE_def toUint32_def toUint8_def)

lemma erase_on_span:
  assumes mi: "memoryInfo d = Some mi"
    and so: "sortedNonOverlapping (segments mi)"
    and ti: "sectorsTile (segments mi)"
    and ok: "reportsAllWritten b" "pollsOK b"
    and len: "1 \<le> len"
    and lo: "getSectorStart d startAddr None = Inr (Num lo)"
    and hi: "getSectorEnd d (startAddr + len - 1) None = Inr (Num hi)"
    and cov: "coveredFrom (segments mi) lo hi"
  shows "\<exists>rest. erase b d startAddr len tr = Some (Inr (), tr @ rest)
           \<and> writesOf rest
               = map (commandWrite ERASE_SECTOR) (erasableSectorStarts (segments mi) lo hi)
           \<and> rest \<noteq> [] \<and> last rest = LogProgress (hi - lo) (hi - lo)"
proof -
  let ?segs = "segments mi"
  let ?last = "startAddr + len - 1"
  from lo mi obtain s0 where s0: "findSegment startAddr ?segs = Some s0"
    and lo0: "sectorStartOf startAddr s0 = Num lo"
    by (auto simp: getSectorStart_def getSegment_def split: option.splits)
  from hi mi obtain s1 where s1: "findSegment ?last ?segs = Some s1"
    and hi1: "sectorEndOf ?last s1 = Num hi"
    by (auto simp: getSectorEnd_def getSegment_def split: option.splits)
  have s0In: "s0 \<in> set ?segs" "seg_start s0 \<le> startAddr" "startAddr < seg_end s0"
    using findSegment_Some [OF s0] by simp_all
  have s1In: "s1 \<in> set ?segs" "seg_start s1 \<le> ?last" "?last < seg_end s1"
    using findSegment_Some [OF s1] by simp_all
  from ti s0In(1) s1In(1) have pos0: "0 < sectorSize s0" and pos1: "0 < sectorSize s1"
    and tile1: "sectorSize s1 dvd (seg_end s1 - seg_start s1)"
    unfolding sectorsTile_def by auto
  \<comment> \<open>the start of the span\<close>
  have loEq: "lo = startAddr - (startAddr - seg_start s0) mod sectorSize s0"
    using lo0 pos0 sectorStart_arith [OF pos0, of "seg_start s0" startAddr]
    by (simp add: sectorStartOf_def)
  have loDef: "lo = seg_start s0 + (startAddr - seg_start s0) div sectorSize s0 * sectorSize s0"
    using lo0 pos0 by (simp add: sectorStartOf_def)
  have "0 \<le> (startAddr - seg_start s0) div sectorSize s0"
    using pos0 s0In(2) by (simp add: pos_imp_zdiv_nonneg_iff)
  then have "0 \<le> (startAddr - seg_start s0) div sectorSize s0 * sectorSize s0"
    using pos0 by simp
  then have loGe: "seg_start s0 \<le> lo" unfolding loDef by simp
  have "0 \<le> (startAddr - seg_start s0) mod sectorSize s0"
    using pos0 by (rule pos_mod_sign)
  then have loLe: "lo \<le> startAddr" unfolding loEq by linarith
  have loAl: "sectorSize s0 dvd (lo - seg_start s0)" unfolding loDef by simp
  have loSeg: "findSegment lo ?segs = Some s0"
    using so s0In(1) loGe by (rule findSegment_unique) (use loLe s0In(3) in simp)
  \<comment> \<open>the end of the span\<close>
  let ?x = "seg_start s1 + (?last - seg_start s1) div sectorSize s1 * sectorSize s1"
  have hiDef: "hi = ?x + sectorSize s1"
    using hi1 pos1 by (simp add: sectorEndOf_def algebra_simps)
  have xEq: "?x = ?last - (?last - seg_start s1) mod sectorSize s1"
    by (rule sectorStart_arith [OF pos1])
  have m1: "0 \<le> (?last - seg_start s1) mod sectorSize s1"
    "(?last - seg_start s1) mod sectorSize s1 < sectorSize s1"
    using pos1 by (rule pos_mod_sign, rule pos_mod_bound)
  have xLe: "?x \<le> ?last" unfolding xEq using m1 by linarith
  have lastLt: "?last < hi" unfolding hiDef xEq using m1 by linarith
  have "0 \<le> (?last - seg_start s1) div sectorSize s1"
    using pos1 s1In(2) by (simp add: pos_imp_zdiv_nonneg_iff)
  then have "0 \<le> (?last - seg_start s1) div sectorSize s1 * sectorSize s1"
    using pos1 by simp
  then have xGe: "seg_start s1 \<le> ?x" by simp
  have xAl: "sectorSize s1 dvd (?x - seg_start s1)" by simp
  have "?x + sectorSize s1 \<le> seg_end s1"
    using pos1 tile1 xAl by (rule aligned_step) (use xLe s1In(3) in simp)
  then have hiLe: "hi \<le> seg_end s1" unfolding hiDef .
  have hiGt: "seg_start s1 < hi" unfolding hiDef using xGe pos1 by simp
  have "hi - seg_start s1 = (?x - seg_start s1) + sectorSize s1" unfolding hiDef by simp
  then have hiAl: "sectorSize s1 dvd (hi - seg_start s1)"
    using xAl by (simp only: dvd_add_triv_right_iff)
  have en: "endAligned ?segs hi"
    unfolding endAligned_def using s1In(1) hiGt hiLe hiAl by blast
  have lt: "lo < hi" using loLe lastLt len by simp
  \<comment> \<open>the loop\<close>
  let ?tr1 = "tr @ [LogProgress 0 (hi - lo)]"
  have start: "erase b d startAddr len tr = eraseLoop b d hi (hi - lo) (Some s0) lo 0 ?tr1"
    using mi s0 lo0 hi lt by (simp add: erase_def getSegment_def getSectorStart_def)
  have "\<exists>rest. eraseLoop b d hi (hi - lo) (Some s0) lo (min lo hi - lo) ?tr1
                  = Some (Inr (), ?tr1 @ rest)
           \<and> writesOf rest
                  = map (commandWrite ERASE_SECTOR) (erasableSectorStarts ?segs lo hi)
           \<and> (if lo < hi then rest \<noteq> [] \<and> last rest = LogProgress (hi - lo) (hi - lo)
               else rest = [])"
    using mi so ti ok en
  proof (rule eraseLoop_span)
    show "lo \<le> lo" by simp
    show "coveredFrom ?segs lo hi" by (rule cov)
    show "alignedIn ?segs lo" unfolding alignedIn_def using loSeg loAl by simp
    show "seg_end s0 \<le> lo \<or> findSegment lo ?segs = Some s0" using loSeg by simp
  qed
  then obtain rest where rest:
    "eraseLoop b d hi (hi - lo) (Some s0) lo 0 ?tr1 = Some (Inr (), ?tr1 @ rest)"
    "writesOf rest = map (commandWrite ERASE_SECTOR) (erasableSectorStarts ?segs lo hi)"
    "rest \<noteq> []" "last rest = LogProgress (hi - lo) (hi - lo)"
    using lt by auto
  let ?rest = "LogProgress 0 (hi - lo) # rest"
  have "erase b d startAddr len tr = Some (Inr (), tr @ ?rest)"
    using start rest(1) by simp
  moreover have "writesOf ?rest
                 = map (commandWrite ERASE_SECTOR) (erasableSectorStarts ?segs lo hi)"
    using rest(2) by simp
  moreover have "?rest \<noteq> [] \<and> last ?rest = LogProgress (hi - lo) (hi - lo)"
    using rest(3,4) by simp
  ultimately show ?thesis by blast
qed

text \<open>C2, amended. For a memory map whose segments are sorted, non-overlapping and tiled by
  their sectors (a positive sector size that divides the segment's length), a range of
  at least one byte whose sector-aligned span \<open>[lo, hi)\<close> has no gap, and a base driver
  that accepts every command: \<open>erase\<close> returns, its device writes are exactly one
  \<open>ERASE_SECTOR\<close> for each sector start of an erasable segment in the span, in ascending
  order (none for an address of a non-erasable segment), and the last event is the
  progress report of the full span length \<open>hi - lo\<close>.\<close>

theorem erase_span:
  assumes mi: "memoryInfo d = Some mi"
    and so: "sortedNonOverlapping (segments mi)"
    and ti: "sectorsTile (segments mi)"
    and ok: "reportsAllWritten b" "pollsOK b"
    and len: "1 \<le> len"
    and lo: "getSectorStart d startAddr None = Inr (Num lo)"
    and hi: "getSectorEnd d (startAddr + len - 1) None = Inr (Num hi)"
    and cov: "coveredFrom (segments mi) lo hi"
  shows "\<exists>rest. erase b d startAddr len tr = Some (Inr (), tr @ rest)
           \<and> writesOf rest
               = map (commandWrite ERASE_SECTOR) (erasableSectorStarts (segments mi) lo hi)
           \<and> rest \<noteq> [] \<and> last rest = LogProgress (hi - lo) (hi - lo)"
  using assms by (rule erase_on_span)

text \<open>Witness for C2: a non-erasable segment \<open>[16, 32)\<close> followed by an erasable segment
  \<open>[32, 64)\<close> with sectors of 16 bytes.\<close>

theorem erase_span_witness:
  "\<exists>rest. erase okDevice (smallDriver None) 16 48 [] = Some (Inr (), [] @ rest)
     \<and> writesOf rest = [([65, 32, 0, 0, 0], 0), ([65, 48, 0, 0, 0], 0)]
     \<and> rest \<noteq> [] \<and> last rest = LogProgress 48 48"
proof -
  let ?mi = "\<lparr>name = ''Flash'', segments = smallSegments\<rparr>"
  have mi: "memoryInfo (smallDriver None) = Some ?mi"
    by (simp add: smallDriver_def)
  have so: "sortedNonOverlapping (segments ?mi)"
    by (simp add: sortedNonOverlapping_def smallSegments_def)
  have ti: "sectorsTile (segments ?mi)"
    by (simp add: sectorsTile_def smallSegments_def)
  have len: "(1::int) \<le> 48" by simp
  have lo: "getSectorStart (smallDriver None) 16 None = Inr (Num 16)"
    by (simp add: getSectorStart_def getSegment_def sectorStartOf_def smallDriver_def
        smallSegments_def)
  have hi: "getSectorEnd (smallDriver None) (16 + 48 - 1) None = Inr (Num 64)"
    by (simp add: getSectorEnd_def getSegment_def sectorEndOf_def smallDriver_def
        smallSegments_def)
  have cov: "coveredFrom (segments ?mi) 16 64"
    by (auto simp: coveredFrom_def smallSegments_def)
  have st: "erasableSectorStarts (segments ?mi) 16 64 = [32, 48]"
    by (simp add: erasableSectorStarts_def isErasableSectorStart_def smallSegments_def
        upto_rec_numeral)
  from erase_span [OF mi so ti okDevice_ok [THEN conjunct1] okDevice_ok [THEN conjunct2]
      len lo hi cov, of "[]"]
  show ?thesis
    unfolding st
    by (simp add: commandWrite_def ERASE_SECTOR_def uint32LE_def toUint32_def toUint8_def)
qed

subsection \<open>The whole write\<close>

text \<open>C1, as stated, fails: an image of 40 bytes written in chunks of 4 at the address
  32 of the small map, with a base driver that reports every byte as written and every
  poll as OK. The image ends beyond the map, \<open>erase\<close> throws the
  address-outside-of-memory-map error for its last byte, 71, and \<open>do_write\<close> issues no
  \<open>SET_ADDRESS\<close> and no transfer at all.\<close>

theorem do_write_image_beyond_map:
  "reportsAllWritten okDevice \<and> pollsOK okDevice \<and> (0::int) < 4
   \<and> length (replicate 40 (0::nat)) = 40
   \<and> do_write okDevice (smallDriver (Some 32)) 4 (replicate 40 0) []
       = Some (Inl (AddressOutsideOfMemoryMap 71), [LogInfo ErasingMemory])"
  using okDevice_ok
  by (simp add: do_write_def resolveStartAddress_def writeFrom_def erase_def getSegment_def
      getSectorStart_def getSectorEnd_def smallDriver_def smallSegments_def)

text \<open>C1, amended. For every image of \<open>N > 0\<close> bytes and every chunk size \<open>C > 0\<close>, with
  a base driver that reports every requested byte as written and answers every poll with
  the status OK, a loaded memory map whose segments are sorted, non-overlapping and tiled
  by their sectors, a start address that is the override or, without one, the start of
  the first segment when that is not 0, and an image whose sector-aligned span
  \<open>[lo, hi) = [sectorStart(startAddress), sectorEnd(startAddress + N - 1))\<close> lies in
  segments without a gap: \<open>do_write\<close> returns without an error, and its device writes are
  the \<open>ERASE_SECTOR\<close> commands of the span followed by exactly \<open>expectedWrites\<close>:
  \<open>ceil(N / C)\<close> pairs of a \<open>SET_ADDRESS\<close> with the parameter \<open>startAddress + i * C\<close> and
  a transfer of the bytes \<open>[i * C, min((i + 1) * C, N))\<close> at the block index 2, then one
  more \<open>SET_ADDRESS\<close> with the start address and one write of no bytes at the block
  index 0.\<close>

theorem do_write_transfers:
  assumes ok: "reportsAllWritten b" "pollsOK b"
    and C: "0 < xfer_size" and N: "data \<noteq> []"
    and mi: "memoryInfo d = Some mi"
    and so: "sortedNonOverlapping (segments mi)"
    and ti: "sectorsTile (segments mi)"
    and st: "startAddress d = Some startAddr
             \<or> (startAddress d = None \<and> (\<exists>s rest. segments mi = s # rest \<and> seg_start s = startAddr)
                 \<and> startAddr \<noteq> 0)"
    and lo: "getSectorStart d startAddr None = Inr (Num lo)"
    and hi: "getSectorEnd d (startAddr + int (length data) - 1) None = Inr (Num hi)"
    and cov: "coveredFrom (segments mi) lo hi"
  shows "\<exists>evs. do_write b d xfer_size data tr = Some (Inr (), tr @ evs)
           \<and> writesOf evs
               = map (commandWrite ERASE_SECTOR) (erasableSectorStarts (segments mi) lo hi)
                 @ expectedWrites startAddr xfer_size data"
proof -
  from lo mi obtain s0 where s0: "findSegment startAddr (segments mi) = Some s0"
    by (auto simp: getSectorStart_def getSegment_def split: option.splits)
  have "\<exists>pre. resolveStartAddress d mi (tr @ [LogInfo ErasingMemory]) = Inr (startAddr, tr @ pre)
              \<and> writesOf pre = []"
  proof (cases "startAddress d")
    case None
    with st obtain s rest where "segments mi = s # rest" "seg_start s = startAddr" "startAddr \<noteq> 0"
      by auto
    with None have "resolveStartAddress d mi (tr @ [LogInfo ErasingMemory])
        = Inr (startAddr, tr @ [LogInfo ErasingMemory, LogWarning (InferredStartAddress startAddr)])"
      by (simp add: resolveStartAddress_def)
    then show ?thesis
      by (intro exI [of _ "[LogInfo ErasingMemory, LogWarning (InferredStartAddress startAddr)]"])
        simp
  next
    case (Some a)
    with st have "a = startAddr" by simp
    with Some mi s0 have "resolveStartAddress d mi (tr @ [LogInfo ErasingMemory])
        = Inr (startAddr, tr @ [LogInfo ErasingMemory])"
      by (simp add: resolveStartAddress_def getSegment_def)
    then show ?thesis by (intro exI [of _ "[LogInfo ErasingMemory]"]) simp
  qed
  then obtain pre where pre:
    "resolveStartAddress d mi (tr @ [LogInfo ErasingMemory]) = Inr (startAddr, tr @ pre)"
    "writesOf pre = []"
    by blast
  have len: "1 \<le> int (length data)" using N by (cases data) simp_all
  from erase_on_span [OF mi so ti ok len lo hi cov, of "tr @ pre"]
  obtain er where er:
    "erase b d startAddr (int (length data)) (tr @ pre) = Some (Inr (), (tr @ pre) @ er)"
    "writesOf er = map (commandWrite ERASE_SECTOR) (erasableSectorStarts (segments mi) lo hi)"
    by blast
  from do_write_after_erase [OF ok C mi pre(1) er(1)]
  obtain rest where rest:
    "do_write b d xfer_size data tr = Some (Inr (), ((tr @ pre) @ er) @ rest)"
    "writesOf rest = expectedWrites startAddr xfer_size data"
    by blast
  have "do_write b d xfer_size data tr = Some (Inr (), tr @ (pre @ er @ rest))"
    using rest(1) by simp
  moreover have "writesOf (pre @ er @ rest)
               = map (commandWrite ERASE_SECTOR) (erasableSectorStarts (segments mi) lo hi)
                 @ expectedWrites startAddr xfer_size data"
    using pre(2) er(2) rest(2) by (simp add: writesOf_append)
  ultimately show ?thesis by blast
qed

text \<open>Witness for C1: an image of 10 bytes written in chunks of 4 at the address 32 of
  the small map; its span is the sector \<open>[32, 48)\<close>.\<close>

theorem do_write_transfers_witness:
  "\<exists>evs. do_write okDevice (smallDriver (Some 32)) 4 [1, 2, 3, 4, 5, 6, 7, 8, 9, 10] []
           = Some (Inr (), [] @ evs)
        \<and> writesOf evs
           = [([65, 32, 0, 0, 0], 0),
              ([33, 32, 0, 0, 0], 0), ([1, 2, 3, 4], 2), ([33, 36, 0, 0, 0], 0), ([5, 6, 7, 8], 2),
              ([33, 40, 0, 0, 0], 0), ([9, 10], 2), ([33, 32, 0, 0, 0], 0), ([], 0)]"
proof -
  let ?mi = "\<lparr>name = ''Flash'', segments = smallSegments\<rparr>"
  let ?data = "[1, 2, 3, 4, 5, 6, 7, 8, 9, 10 :: nat]"
  have mi: "memoryInfo (smallDriver (Some 32)) = Some ?mi"
    by (simp add: smallDriver_def)
  have so: "sortedNonOverlapping (segments ?mi)"
    by (simp add: sortedNonOverlapping_def smallSegments_def)
  have ti: "sectorsTile (segments ?mi)"
    by (simp add: sectorsTile_def smallSegments_def)
  have C: "(0::int) < 4" and N: "?data \<noteq> []" by simp_all
  have st: "startAddress (smallDriver (Some 32)) = Some 32
            \<or> (startAddress (smallDriver (Some 32)) = None
                \<and> (\<exists>s rest. segments ?mi = s # rest \<and> seg_start s = 32) \<and> (32::int) \<noteq> 0)"
    by (simp add: smallDriver_def)
  have lo: "getSectorStart (smallDriver (Some 32)) 32 None = Inr (Num 32)"
    by (simp add: getSectorStart_def getSegment_def sectorStartOf_def smallDriver_def
        smallSegments_def)
  have hi: "getSectorEnd (smallDriver (Some 32)) (32 + int (length ?data) - 1) None = Inr (Num 48)"
    by (simp add: getSectorEnd_def getSegment_def sectorEndOf_def smallDriver_def
        smallSegments_def)
  have cov: "coveredFrom (segments ?mi) 32 48"
    by (auto simp: coveredFrom_def smallSegments_def)
  have es: "erasableSectorStarts (segments ?mi) 32 48 = [32]"
    by (simp add: erasableSectorStarts_def isErasableSectorStart_def smallSegments_def
        upto_rec_numeral)
  have ex: "expectedWrites 32 4 ?data
            = [([33, 32, 0, 0, 0], 0), ([1, 2, 3, 4], 2), ([33, 36, 0, 0, 0], 0), ([5, 6, 7, 8], 2),
              ([33, 40, 0, 0, 0], 0), ([9, 10], 2), ([33, 32, 0, 0, 0], 0), ([], 0)]"
    by (simp add: expectedWrites_def commandWrite_def SET_ADDRESS_def uint32LE_def toUint32_def
        toUint8_def upt_rec_numeral upt_conv_Cons)
  have cw: "commandWrite ERASE_SECTOR 32 = ([65, 32, 0, 0, 0], 0)"
    by (simp add: commandWrite_def ERASE_SECTOR_def uint32LE_def toUint32_def toUint8_def)
  from do_write_transfers [OF okDevice_ok [THEN conjunct1] okDevice_ok [THEN conjunct2]
      C N mi so ti st lo hi cov, of "[]"]
  show ?thesis unfolding es ex by (simp add: cw)
qed

end
